theory Spec2Isabelle
  imports
    Complex_Main
    "HOL-Library.Multiset"
    "HOL-Library.Sublist"
    "HOL-Library.List_Lexorder"
    "HOL-Library.Product_Lexorder"
begin

section \<open>Python text: code points, classes and case\<close>

text \<open>
  A Python \<open>str\<close> is a sequence of Unicode code points, so text is a list of natural
  numbers and \<open>len\<close> is \<open>length\<close>. The comparison of two \<open>str\<close> values is the
  lexicographic order of the code points, which is the order of lists here.

  The whitespace class (\<open>str.strip\<close>, \<open>str.isspace\<close>, the pattern \<open>\s\<close>) is
  tabulated in full. The word class \<open>\w\<close>, the digit class \<open>\d\<close> and the case
  mappings are tabulated for the code points below U+0180 (Basic Latin, Latin-1
  Supplement, Latin Extended-A: the alphabet of the program's Polish patterns and
  prompts); a code point from U+0180 on is taken as a caseless symbol that is neither
  a letter nor a digit.
\<close>

type_synonym ustr = "nat list"

definition U :: "string \<Rightarrow> ustr" where
  "U s = map of_char s"

datatype exn =
    ZeroDivisionError ustr
  | IndexError ustr
  | OverflowError ustr
  | ValueError ustr
  | RuntimeError ustr

fun exn_str :: "exn \<Rightarrow> ustr" where
  "exn_str (ZeroDivisionError m) = m"
| "exn_str (IndexError m) = m"
| "exn_str (OverflowError m) = m"
| "exn_str (ValueError m) = m"
| "exn_str (RuntimeError m) = m"

definition isspace :: "nat \<Rightarrow> bool" where
  "isspace c \<longleftrightarrow>
     (9 \<le> c \<and> c \<le> 13) \<or> (28 \<le> c \<and> c \<le> 32) \<or> c = 133 \<or> c = 160 \<or> c = 5760 \<or>
     (8192 \<le> c \<and> c \<le> 8202) \<or> c = 8232 \<or> c = 8233 \<or> c = 8239 \<or> c = 8287 \<or>
     c = 12288"

definition isdigit_d :: "nat \<Rightarrow> bool" where
  "isdigit_d c \<longleftrightarrow> 48 \<le> c \<and> c \<le> 57"

definition isalnum :: "nat \<Rightarrow> bool" where
  "isalnum c \<longleftrightarrow>
     (48 \<le> c \<and> c \<le> 57) \<or> (65 \<le> c \<and> c \<le> 90) \<or> (97 \<le> c \<and> c \<le> 122) \<or>
     c = 170 \<or> c = 178 \<or> c = 179 \<or> c = 181 \<or> c = 185 \<or> c = 186 \<or>
     (188 \<le> c \<and> c \<le> 190) \<or> (192 \<le> c \<and> c \<le> 214) \<or> (216 \<le> c \<and> c \<le> 246) \<or>
     (248 \<le> c \<and> c < 384)"

definition is_word :: "nat \<Rightarrow> bool" where
  "is_word c \<longleftrightarrow> isalnum c \<or> c = 95"

text \<open>The one-to-one lower-case mapping of a code point (what \<open>re.I\<close> folds with).\<close>

definition simple_lower :: "nat \<Rightarrow> nat" where
  "simple_lower c =
     (if 65 \<le> c \<and> c \<le> 90 then c + 32
      else if (192 \<le> c \<and> c \<le> 214) \<or> (216 \<le> c \<and> c \<le> 222) then c + 32
      else if 256 \<le> c \<and> c \<le> 302 \<and> even c then c + 1
      else if c = 304 then 105
      else if 306 \<le> c \<and> c \<le> 310 \<and> even c then c + 1
      else if 313 \<le> c \<and> c \<le> 327 \<and> odd c then c + 1
      else if 330 \<le> c \<and> c \<le> 374 \<and> even c then c + 1
      else if c = 376 then 255
      else if 377 \<le> c \<and> c \<le> 381 \<and> odd c then c + 1
      else c)"

text \<open>\<open>str.lower\<close>: U+0130 becomes two code points, every other one its simple mapping.\<close>

definition lower :: "ustr \<Rightarrow> ustr" where
  "lower s = concat (map (\<lambda>c. if c = 304 then [105, 775] else [simple_lower c]) s)"

definition islower :: "nat \<Rightarrow> bool" where
  "islower c \<longleftrightarrow>
     (97 \<le> c \<and> c \<le> 122) \<or> c = 170 \<or> c = 181 \<or> c = 186 \<or>
     (223 \<le> c \<and> c \<le> 246) \<or> (248 \<le> c \<and> c \<le> 255) \<or>
     (257 \<le> c \<and> c \<le> 311 \<and> odd c) \<or> c = 312 \<or> (314 \<le> c \<and> c \<le> 328 \<and> even c) \<or>
     c = 329 \<or> (331 \<le> c \<and> c \<le> 375 \<and> odd c) \<or> (378 \<le> c \<and> c \<le> 382 \<and> even c) \<or>
     c = 383"

text \<open>\<open>str.upper\<close> of one code point (it may give two).\<close>

definition upper1 :: "nat \<Rightarrow> ustr" where
  "upper1 c =
     (if 97 \<le> c \<and> c \<le> 122 then [c - 32]
      else if c = 181 then [924]
      else if c = 223 then [83, 83]
      else if (224 \<le> c \<and> c \<le> 246) \<or> (248 \<le> c \<and> c \<le> 254) then [c - 32]
      else if c = 255 then [376]
      else if 257 \<le> c \<and> c \<le> 303 \<and> odd c then [c - 1]
      else if c = 305 then [73]
      else if 307 \<le> c \<and> c \<le> 311 \<and> odd c then [c - 1]
      else if 314 \<le> c \<and> c \<le> 328 \<and> even c then [c - 1]
      else if c = 329 then [700, 78]
      else if 331 \<le> c \<and> c \<le> 375 \<and> odd c then [c - 1]
      else if 378 \<le> c \<and> c \<le> 382 \<and> even c then [c - 1]
      else if c = 383 then [83]
      else [c])"

definition lstrip :: "ustr \<Rightarrow> ustr" where
  "lstrip s = dropWhile isspace s"

definition rstrip :: "ustr \<Rightarrow> ustr" where
  "rstrip s = rev (dropWhile isspace (rev s))"

definition strip :: "ustr \<Rightarrow> ustr" where
  "strip s = rstrip (lstrip s)"

text \<open>\<open>needle in s\<close> on strings: the needle occurs as a contiguous block.\<close>

fun contains :: "ustr \<Rightarrow> ustr \<Rightarrow> bool" where
  "contains needle [] = (needle = [])"
| "contains needle (c # cs) = (prefix needle (c # cs) \<or> contains needle cs)"

text \<open>
  The anchor \<open>$\<close> of a pattern compiled without \<open>re.M\<close> holds at the end of the text and
  just before a line feed that ends the text.
\<close>

definition at_dollar :: "ustr \<Rightarrow> bool" where
  "at_dollar rest \<longleftrightarrow> rest = [] \<or> rest = [10]"

text \<open>\<open>re.findall(r"\w+", s)\<close>: the maximal runs of word characters, left to right.\<close>

fun findall_w_from :: "ustr \<Rightarrow> ustr \<Rightarrow> ustr list" where
  "findall_w_from cur [] = (if cur = [] then [] else [cur])"
| "findall_w_from cur (c # cs) =
     (if is_word c then findall_w_from (cur @ [c]) cs
      else (if cur = [] then [] else [cur]) @ findall_w_from [] cs)"

definition findall_w :: "ustr \<Rightarrow> ustr list" where
  "findall_w s = findall_w_from [] s"

text \<open>Python's true division \<open>a / b\<close> of two integers: it raises on a zero divisor.\<close>

definition truediv :: "int \<Rightarrow> int \<Rightarrow> exn + real" where
  "truediv a b =
     (if b = 0 then Inl (ZeroDivisionError (U ''division by zero''))
      else Inr (real_of_int a / real_of_int b))"

section \<open>The candidate scorer of the dialogue script (zad_1.py)\<close>

text \<open>
  Floating-point values are modelled as reals: the terms of the score are small
  multiples of ratios in the unit interval, far from overflow, and the only operation
  that can fail is the division, which is modelled as Python's (it raises on zero).
\<close>

definition repetition_ratio :: "ustr \<Rightarrow> exn + real" where
  "repetition_ratio text =
     (let tokens = filter (\<lambda>t. t \<noteq> []) (findall_w (lower text)) in
      if tokens = [] then Inr 1
      else truediv (int (card (set tokens))) (int (length tokens)))"

definition jaccard_sim :: "ustr \<Rightarrow> ustr \<Rightarrow> exn + real" where
  "jaccard_sim a b =
     (let A = set (findall_w (lower a)); B = set (findall_w (lower b)) in
      if A = {} \<or> B = {} then Inr 0
      else truediv (int (card (A \<inter> B))) (int (card (A \<union> B))))"

text \<open>\<open>re.search(r"[.?!]$", txt)\<close>: some position holds one of the three marks and \<open>$\<close>
  holds right after it.\<close>

fun search_end_mark :: "ustr \<Rightarrow> bool" where
  "search_end_mark [] = False"
| "search_end_mark (c # cs) =
     (((c = 46 \<or> c = 63 \<or> c = 33) \<and> at_dollar cs) \<or> search_end_mark cs)"

definition score_candidate :: "ustr \<Rightarrow> ustr \<Rightarrow> exn + real" where
  "score_candidate user_utterance candidate =
     (let txt = strip candidate;
          len = int (length txt);
          len_score = - 0.002 * real_of_int (max 0 (len - 120))
                      + (if 25 \<le> len \<and> len \<le> 160 then 0.2 else 0.0)
      in case repetition_ratio txt of
           Inl e \<Rightarrow> Inl e
         | Inr rep \<Rightarrow>
             (let rep_score = 0.6 * rep;
                  end_score = (if search_end_mark txt then 0.2 else 0.0)
              in case jaccard_sim user_utterance txt of
                   Inl e \<Rightarrow> Inl e
                 | Inr jac \<Rightarrow>
                     (let topic_score = 0.6 * jac;
                          role_penalty =
                            (if contains (U ''USER:'') txt \<or> contains (U ''BOT:'') (drop 5 txt)
                             then - 0.5 else 0.0)
                      in Inr (len_score + rep_score + end_score + topic_score
                              + role_penalty))))"

section \<open>The constrained nucleus sampler (pracownia_2/main.py)\<close>

text \<open>
  A logit vector is a list of reals indexed by token id. After a truncation an entry may
  be \<open>-inf\<close>, written \<open>None\<close>. The tokenizer's \<open>decode\<close> of a single token id and
  the causal model are parameters. Probabilities are reals; the source computes
  them in single precision, and where a comparison depends on it (the threshold of the
  top-p step) the running sums are also taken as binary floating-point numbers.
\<close>

definition TOP_K :: nat where
  "TOP_K = 40"

definition TOP_P :: real where
  "TOP_P = 0.9"

definition MAX_NEW_TOKENS :: nat where
  "MAX_NEW_TOKENS = 40"

definition forbidden_penalty :: real where
  "forbidden_penalty = - 20.0"

text \<open>The test of the filter's loop body: the token starts a new word with another letter.\<close>

definition starts_word_with_other_letter :: "(nat \<Rightarrow> ustr) \<Rightarrow> ustr \<Rightarrow> nat \<Rightarrow> bool" where
  "starts_word_with_other_letter decode letter tok_id =
     (let tok_str = decode tok_id in
      if prefix (U '' '') tok_str then
        (let stripped = strip tok_str in
         length stripped > 0 \<and> lower (take 1 stripped) \<noteq> lower letter)
      else False)"

definition modify_logits_for_letter_constraint ::
    "real list \<Rightarrow> (nat \<Rightarrow> ustr) \<Rightarrow> ustr \<Rightarrow> real list" where
  "modify_logits_for_letter_constraint logits decode letter =
     map (\<lambda>tok_id. if starts_word_with_other_letter decode letter tok_id
                    then logits ! tok_id + forbidden_penalty
                    else logits ! tok_id)
         [0..<length logits]"

text \<open>
  Sorting in descending order puts \<open>-inf\<close> last. \<open>torch.topk\<close> and \<open>torch.sort\<close> leave
  the order of equal values open; here equal values keep the order of their indices.
\<close>

definition desc_key :: "real option \<Rightarrow> nat \<times> real" where
  "desc_key x = (case x of None \<Rightarrow> (1, 0) | Some r \<Rightarrow> (0, - r))"

definition argsort_desc :: "real option list \<Rightarrow> nat list" where
  "argsort_desc xs = sort_key (\<lambda>i. desc_key (xs ! i)) [0..<length xs]"

definition torch_topk :: "real list \<Rightarrow> nat \<Rightarrow> exn + nat list" where
  "torch_topk logits k =
     (if length logits < k then Inl (RuntimeError (U ''selected index k out of range''))
      else Inr (take k (argsort_desc (map Some logits))))"

text \<open>\<open>torch.full_like(logits, -inf)\<close> with the entries at \<open>indices\<close> copied from \<open>logits\<close>.\<close>

definition keep_only :: "real list \<Rightarrow> nat list \<Rightarrow> real option list" where
  "keep_only logits indices =
     map (\<lambda>i. if i \<in> set indices then Some (logits ! i) else None) [0..<length logits]"

definition expx :: "real option \<Rightarrow> real" where
  "expx x = (case x of None \<Rightarrow> 0 | Some r \<Rightarrow> exp r)"

definition softmax :: "real option list \<Rightarrow> real list" where
  "softmax xs = map (\<lambda>x. expx x / sum_list (map expx xs)) xs"

fun cumsum_from :: "real \<Rightarrow> real list \<Rightarrow> real list" where
  "cumsum_from acc [] = []"
| "cumsum_from acc (x # xs) = (acc + x) # cumsum_from (acc + x) xs"

definition cumsum :: "real list \<Rightarrow> real list" where
  "cumsum xs = cumsum_from 0 xs"

text \<open>\<open>(cumulative > TOP_P).nonzero()\<close>: the positions where the running sum exceeds the
  threshold, in increasing order.\<close>

definition cutoff_positions :: "real list \<Rightarrow> nat list" where
  "cutoff_positions cumulative =
     filter (\<lambda>i. cumulative ! i > TOP_P) [0..<length cumulative]"

text \<open>
  The top-p step on the sorted logits, given the running sums \<open>cumulative\<close> that
  \<open>torch.cumsum\<close> returns: everything after the first position whose running sum
  exceeds \<open>TOP_P\<close> becomes \<open>-inf\<close>.
\<close>

definition top_p_truncate :: "real list \<Rightarrow> real option list \<Rightarrow> real option list" where
  "top_p_truncate cumulative sorted_logits =
     (let cutoff = cutoff_positions cumulative
      in if length cutoff > 0
         then (let first_index = hd cutoff
               in take (first_index + 1) sorted_logits
                  @ replicate (length sorted_logits - (first_index + 1)) None)
         else sorted_logits)"

text \<open>The top-p step with the probabilities and their running sums computed exactly.\<close>

definition top_p_cut :: "real option list \<Rightarrow> real option list" where
  "top_p_cut sorted_logits =
     (let probs = softmax sorted_logits;
          cumulative = cumsum probs
      in top_p_truncate cumulative sorted_logits)"


text \<open>\<open>final_logits[sorted_indices] = sorted_logits\<close> on a vector of zeros.\<close>

definition scatter :: "nat list \<Rightarrow> real option list \<Rightarrow> real option list" where
  "scatter sorted_indices sorted_logits =
     foldl (\<lambda>final (i, v). final[i := v])
           (replicate (length sorted_logits) (Some 0))
           (zip sorted_indices sorted_logits)"

text \<open>
  One step of \<open>sample_sequence\<close> from the model's logits for the next token up to the
  vector \<open>probabilities\<close> that \<open>torch.multinomial\<close> draws from.
\<close>

definition sampling_distribution ::
    "(nat \<Rightarrow> ustr) \<Rightarrow> ustr \<Rightarrow> real list \<Rightarrow> exn + real list" where
  "sampling_distribution decode letter_constraint model_logits =
     (let logits = modify_logits_for_letter_constraint model_logits decode letter_constraint
      in case torch_topk logits TOP_K of
           Inl e \<Rightarrow> Inl e
         | Inr indices \<Rightarrow>
             (let logits_filtered = keep_only logits indices;
                  sorted_indices = argsort_desc logits_filtered;
                  sorted_logits = map (\<lambda>i. logits_filtered ! i) sorted_indices;
                  sorted_logits = top_p_cut sorted_logits;
                  final_logits = scatter sorted_indices sorted_logits
              in Inr (softmax final_logits)))"

section \<open>The continuation scorer (test.py)\<close>

text \<open>
  The tokenizer and the causal model are parameters. The tokenizer takes the flag
  \<open>add_special_tokens\<close> and a text and gives the token ids. A forward pass of the
  model gives one row of logits per input position, or raises.
\<close>

type_synonym tokenizer_fn = "bool \<Rightarrow> ustr \<Rightarrow> nat list"
type_synonym model_fn = "nat list \<Rightarrow> exn + real list list"

definition log_softmax :: "real list \<Rightarrow> real list" where
  "log_softmax xs = map (\<lambda>x. x - ln (sum_list (map exp xs))) xs"

text \<open>Indexing a tensor or a list at a position: out of range raises.\<close>

definition getitem :: "'a list \<Rightarrow> nat \<Rightarrow> exn + 'a" where
  "getitem xs i =
     (if i < length xs then Inr (xs ! i) else Inl (IndexError (U ''index out of range'')))"




section \<open>The masked-model engine (pracownia_1/d.py): pseudo log-likelihood\<close>

text \<open>
  The engine holds the tokenizer (it gives the token ids with the special tokens and
  the attention mask), the masked model, the fill-mask pipeline (it gives scored fillers
  in descending score) and the mask token. Each of them may raise.
\<close>

record prediction =
  score :: real
  token_str :: ustr

record engine =
  tokenizer :: "ustr \<Rightarrow> exn + nat list \<times> nat list"
  model :: model_fn
  fill :: "ustr \<Rightarrow> exn + prediction list"
  mask_token_id :: nat
  mask :: ustr
  topk :: nat

text \<open>The body of the loop of \<open>pll\<close> for a position that is not skipped: the
  log-probability of the original token at position \<open>i\<close> when that position is masked.\<close>

definition masked_logprob :: "engine \<Rightarrow> nat list \<Rightarrow> nat \<Rightarrow> exn + real" where
  "masked_logprob e input_ids i =
     (let masked = input_ids[i := mask_token_id e]
      in case model e masked of
           Inl x \<Rightarrow> Inl x
         | Inr rows \<Rightarrow>
             (case getitem rows i of
                Inl x \<Rightarrow> Inl x
              | Inr logits \<Rightarrow> getitem (log_softmax logits) (input_ids ! i)))"

fun pll_loop ::
    "engine \<Rightarrow> nat list \<Rightarrow> nat list \<Rightarrow> nat list \<Rightarrow> real \<Rightarrow> nat \<Rightarrow> exn + real \<times> nat" where
  "pll_loop e input_ids attn [] log_prob_sum cnt = Inr (log_prob_sum, cnt)"
| "pll_loop e input_ids attn (i # rest) log_prob_sum cnt =
     (case getitem attn i of
        Inl x \<Rightarrow> Inl x
      | Inr a \<Rightarrow>
          (if a = 0 then pll_loop e input_ids attn rest log_prob_sum cnt
           else (case masked_logprob e input_ids i of
                   Inl x \<Rightarrow> Inl x
                 | Inr lp \<Rightarrow>
                     pll_loop e input_ids attn rest (log_prob_sum + lp) (cnt + 1))))"

text \<open>Python's \<open>x / n\<close> of a float by an integer: it raises on zero.\<close>

definition fdiv :: "real \<Rightarrow> nat \<Rightarrow> exn + real" where
  "fdiv x n =
     (if n = 0 then Inl (ZeroDivisionError (U ''float division by zero''))
      else Inr (x / real n))"

definition pll :: "engine \<Rightarrow> ustr \<Rightarrow> exn + real" where
  "pll e text =
     (case tokenizer e text of
        Inl x \<Rightarrow> Inl x
      | Inr (input_ids, attn) \<Rightarrow>
          (case pll_loop e input_ids attn [1..<length input_ids - 1] 0 0 of
             Inl x \<Rightarrow> Inl x
           | Inr (log_prob_sum, cnt) \<Rightarrow> fdiv log_prob_sum (max cnt 1)))"

section \<open>Patterns of the question answerer (pracownia_1/d.py)\<close>

text \<open>
  Under \<open>re.I\<close> a literal of a pattern matches a character when the two have the same
  simple lower case, or when they are one of the pairs the regular-expression compiler
  adds: i and dotless i, s and long s, the micro sign and mu.
\<close>

definition ci_eq :: "nat \<Rightarrow> nat \<Rightarrow> bool" where
  "ci_eq p c \<longleftrightarrow>
     (let lo = simple_lower p; lc = simple_lower c
      in lc = lo \<or> (lo = 105 \<and> lc = 305) \<or> (lo = 305 \<and> lc = 105)
         \<or> (lo = 115 \<and> lc = 383) \<or> (lo = 383 \<and> lc = 115)
         \<or> (lo = 181 \<and> lc = 956) \<or> (lo = 956 \<and> lc = 181))"

text \<open>A literal of a pattern compiled with \<open>re.I\<close> matches at the start of the text.\<close>

definition ci_prefix :: "ustr \<Rightarrow> ustr \<Rightarrow> bool" where
  "ci_prefix lit s \<longleftrightarrow> length lit \<le> length s \<and> list_all2 ci_eq lit (take (length lit) s)"

text \<open>\<open>str.replace(old, new)\<close>: every occurrence, left to right, without overlap.\<close>

function replace_ne :: "ustr \<Rightarrow> ustr \<Rightarrow> ustr \<Rightarrow> ustr" where
  "replace_ne old new [] = []"
| "replace_ne old new (c # cs) =
     (if old \<noteq> [] \<and> prefix old (c # cs)
      then new @ replace_ne old new (drop (length old) (c # cs))
      else c # replace_ne old new cs)"
  by pat_completeness auto
termination
  by (relation "measure (\<lambda>(old, new, s). length s)") (auto simp: neq_Nil_conv)

definition replace_str :: "ustr \<Rightarrow> ustr \<Rightarrow> ustr \<Rightarrow> ustr" where
  "replace_str old new s =
     (if old = [] then new @ concat (map (\<lambda>c. c # new) s) else replace_ne old new s)"

text \<open>\<open>re.sub(r"\s+", " ", s)\<close>: each maximal run of whitespace becomes one space.\<close>

function collapse_ws :: "ustr \<Rightarrow> ustr" where
  "collapse_ws [] = []"
| "collapse_ws (c # cs) =
     (if isspace c then 32 # collapse_ws (dropWhile isspace cs) else c # collapse_ws cs)"
  by pat_completeness auto
termination
  by (relation "measure length") (auto simp: less_Suc_eq_le length_dropWhile_le)

definition normalize_whitespace :: "ustr \<Rightarrow> ustr" where
  "normalize_whitespace s = strip (collapse_ws s)"

definition sort_questions :: "ustr list \<Rightarrow> ustr list" where
  "sort_questions questions = sort (map strip (filter (\<lambda>q. strip q \<noteq> []) questions))"

section \<open>The arithmetic heuristic\<close>

text \<open>
  The values \<open>eval\<close> can give for an expression over the admitted characters: an
  integer, a float (a real, an infinity or a NaN), or another object, kept as the text
  \<open>str\<close> gives for it. The evaluator of Python expressions, the text of the float
  \<open>(float(a) / 100.0) * float(b)\<close> and the format \<open>%.10g\<close> are parameters; the
  evaluator takes the builtins it may use.
\<close>

datatype pyval = PyInt int | PyFloat real | PyInf | PyNaN | PyObject ustr

record runtime =
  py_eval :: "(ustr \<rightharpoonup> pyval) \<Rightarrow> ustr \<Rightarrow> exn + pyval"
  percent_of :: "ustr \<Rightarrow> ustr \<Rightarrow> ustr"
  format_10g :: "real \<Rightarrow> ustr"

definition ARITH_TRIGGERS :: "ustr list" where
  "ARITH_TRIGGERS = [U ''ile to'', U ''policz'', U ''oblicz'', U ''jaki jest wynik'']"

text \<open>\<open>ARITH_RE.match(s)\<close>: the number of characters matched at the start of \<open>s\<close>, a
  trigger phrase and every colon and whitespace after it, or \<open>None\<close>.\<close>

definition ARITH_RE_match :: "ustr \<Rightarrow> nat option" where
  "ARITH_RE_match s =
     (case find (\<lambda>t. ci_prefix t s) ARITH_TRIGGERS of
        None \<Rightarrow> None
      | Some t \<Rightarrow>
          Some (length t
                + length (takeWhile (\<lambda>c. c = 58 \<or> isspace c) (drop (length t) s))))"

text \<open>\<open>re.sub(r"[?]$", "", s)\<close>: a question mark is removed where \<open>$\<close> holds after it.\<close>

fun sub_final_qmark :: "ustr \<Rightarrow> ustr" where
  "sub_final_qmark [] = []"
| "sub_final_qmark (c # cs) =
     (if c = 63 \<and> at_dollar cs then sub_final_qmark cs else c # sub_final_qmark cs)"

definition SAFE_CHAR :: "nat \<Rightarrow> bool" where
  "SAFE_CHAR c \<longleftrightarrow>
     (48 \<le> c \<and> c \<le> 57) \<or> isspace c \<or> c = 43 \<or> c = 45 \<or> c = 42 \<or> c = 47 \<or>
     c = 40 \<or> c = 41 \<or> c = 46 \<or> c = 44 \<or> c = 37"

text \<open>\<open>SAFE_EXPR_RE.match(expr)\<close>: one or more admitted characters up to the end.\<close>

definition SAFE_EXPR_RE_match :: "ustr \<Rightarrow> bool" where
  "SAFE_EXPR_RE_match expr \<longleftrightarrow> expr \<noteq> [] \<and> list_all SAFE_CHAR expr"

text \<open>
  The number pattern \<open>\d+(?:\.\d+)?\<close> at the start of a text: the digits, and a
  fraction when a dot and a digit follow. It gives the number and the rest.
\<close>

definition take_number :: "ustr \<Rightarrow> (ustr \<times> ustr) option" where
  "take_number s =
     (let ds = takeWhile isdigit_d s; r = dropWhile isdigit_d s
      in if ds = [] then None
         else (case r of
                 c # r' \<Rightarrow>
                   (if c = 46 \<and> takeWhile isdigit_d r' \<noteq> []
                    then Some (ds @ [46] @ takeWhile isdigit_d r', dropWhile isdigit_d r')
                    else Some (ds, r))
               | [] \<Rightarrow> Some (ds, r)))"

text \<open>The percent pattern \<open>(number)\s*%\s*z\s*(number)\<close> at the start of a text: the two
  numbers and the number of characters matched.\<close>

definition percent_match_here :: "ustr \<Rightarrow> (ustr \<times> ustr \<times> nat) option" where
  "percent_match_here s =
     (case take_number s of
        None \<Rightarrow> None
      | Some (a, r1) \<Rightarrow>
          (case dropWhile isspace r1 of
             c1 # r2 \<Rightarrow>
               (if c1 \<noteq> 37 then None
                else (case dropWhile isspace r2 of
                        c2 # r3 \<Rightarrow>
                          (if c2 \<noteq> 122 then None
                           else (case take_number (dropWhile isspace r3) of
                                   None \<Rightarrow> None
                                 | Some (b, r4) \<Rightarrow> Some (a, b, length s - length r4)))
                      | [] \<Rightarrow> None))
           | [] \<Rightarrow> None))"

text \<open>\<open>re.search\<close> of the percent pattern and the replacement of the leftmost match
  by the text of the computed value.\<close>

fun percent_rewrite :: "runtime \<Rightarrow> ustr \<Rightarrow> ustr" where
  "percent_rewrite rt [] = []"
| "percent_rewrite rt (c # cs) =
     (case percent_match_here (c # cs) of
        Some (a, b, n) \<Rightarrow> percent_of rt a b @ drop n (c # cs)
      | None \<Rightarrow> c # percent_rewrite rt cs)"

function str_nat :: "nat \<Rightarrow> ustr" where
  "str_nat n = (if n < 10 then [48 + n] else str_nat (n div 10) @ [48 + n mod 10])"
  by pat_completeness auto
termination
  by (relation "measure id") auto

definition str_int :: "int \<Rightarrow> ustr" where
  "str_int i = (if i < 0 then 45 # str_nat (nat (- i)) else str_nat (nat i))"

text \<open>The text of \<open>s\<close> in \<open>try_arithmetic\<close> before the whitespace is removed from it:
  the trigger cut off, commas turned into dots, the percent pattern rewritten.\<close>

definition arith_rewritten :: "runtime \<Rightarrow> ustr \<Rightarrow> nat \<Rightarrow> ustr" where
  "arith_rewritten rt s n = percent_rewrite rt (replace_str (U '','') (U ''.'') (drop n s))"

text \<open>The result of \<open>eval\<close> made into the answer (the last lines of \<open>try_arithmetic\<close>).
  \<open>round\<close> raises on an infinity and on a NaN.\<close>

definition render_value :: "runtime \<Rightarrow> pyval \<Rightarrow> exn + ustr option" where
  "render_value rt val =
     (case val of
        PyFloat v \<Rightarrow>
          (if \<bar>v - real_of_int (round v)\<bar> < 1 / 10 ^ 9 then Inr (Some (str_int (round v)))
           else Inr (Some (replace_str (U ''.'') (U '','') (format_10g rt v))))
      | PyInf \<Rightarrow> Inl (OverflowError (U ''cannot convert float infinity to integer''))
      | PyNaN \<Rightarrow> Inl (ValueError (U ''cannot convert float NaN to integer''))
      | PyInt i \<Rightarrow> Inr (Some (str_int i))
      | PyObject txt \<Rightarrow> Inr (Some txt))"

definition try_arithmetic :: "runtime \<Rightarrow> ustr \<Rightarrow> exn + ustr option" where
  "try_arithmetic rt q =
     (let s = sub_final_qmark (strip (lower q))
      in case ARITH_RE_match s of
           None \<Rightarrow> Inr None
         | Some n \<Rightarrow>
             (let expr = filter (\<lambda>c. \<not> isspace c) (arith_rewritten rt s n)
              in if \<not> SAFE_EXPR_RE_match expr then Inr None
                 else (case py_eval rt Map.empty expr of
                         Inl e \<Rightarrow> Inr None
                       | Inr val \<Rightarrow> render_value rt val)))"

section \<open>The masked-model engine: fillers, spans and question groups\<close>

text \<open>
  The patterns of the answerer are sequences of a few kinds of pieces, matched from the
  start of the text (\<open>^\<close>) to its end (\<open>$\<close>): a literal under \<open>re.I\<close>, \<open>.*\<close>, \<open>\?\<close>,
  \<open>\??\<close>, \<open>\s*\<close> and \<open>\s+\<close>. The dot matches every character but the line feed.
\<close>

datatype piece = Lit ustr | DotStar | Q | OptQ | Sp0 | Sp1

fun pmatch :: "piece list \<Rightarrow> ustr \<Rightarrow> bool" where
  "pmatch [] s = at_dollar s"
| "pmatch (Lit l # ps) s = (ci_prefix l s \<and> pmatch ps (drop (length l) s))"
| "pmatch (DotStar # ps) s =
     (pmatch ps s \<or> (case s of [] \<Rightarrow> False | c # cs \<Rightarrow> c \<noteq> 10 \<and> pmatch (DotStar # ps) cs))"
| "pmatch (Q # ps) s = (case s of [] \<Rightarrow> False | c # cs \<Rightarrow> c = 63 \<and> pmatch ps cs)"
| "pmatch (OptQ # ps) s =
     ((case s of [] \<Rightarrow> False | c # cs \<Rightarrow> c = 63 \<and> pmatch ps cs) \<or> pmatch ps s)"
| "pmatch (Sp0 # ps) s =
     (pmatch ps s \<or> (case s of [] \<Rightarrow> False | c # cs \<Rightarrow> isspace c \<and> pmatch (Sp0 # ps) cs))"
| "pmatch (Sp1 # ps) s =
     (case s of [] \<Rightarrow> False | c # cs \<Rightarrow> isspace c \<and> pmatch (Sp0 # ps) cs)"

text \<open>
  A capital pattern is a literal, \<open>\s+\<close>, the lazy group \<open>(.+?)\<close> and a tail. The group
  is the shortest non-empty run without a line feed after which the tail matches up to
  the end; \<open>\s+\<close> takes as much whitespace as it can and gives back one character at a
  time when no group is found.
\<close>

fun lazy_group :: "piece list \<Rightarrow> ustr \<Rightarrow> ustr \<Rightarrow> ustr option" where
  "lazy_group tail acc [] = None"
| "lazy_group tail acc (c # cs) =
     (if c = 10 then None
      else if pmatch tail cs then Some (acc @ [c])
      else lazy_group tail (acc @ [c]) cs)"

fun group_after_ws :: "piece list \<Rightarrow> ustr \<Rightarrow> nat \<Rightarrow> ustr option" where
  "group_after_ws tail r 0 = None"
| "group_after_ws tail r (Suc n) =
     (case lazy_group tail [] (drop (Suc n) r) of
        Some g \<Rightarrow> Some g
      | None \<Rightarrow> group_after_ws tail r n)"

definition capital_match :: "ustr \<times> piece list \<Rightarrow> ustr \<Rightarrow> ustr option" where
  "capital_match pat s =
     (case pat of (l, tail) \<Rightarrow>
        if ci_prefix l s
        then (let r = drop (length l) s
              in group_after_ws tail r (length (takeWhile isspace r)))
        else None)"

definition CAPITAL_PATTERNS :: "(ustr \<times> piece list) list" where
  "CAPITAL_PATTERNS =
     [(U ''jaka jest stolica'', [Q]),
      (U ''stolica'', [Q]),
      (U ''stolic'' @ [261], [Sp1, Lit (U ''jest''), Sp0, OptQ])]"

text \<open>The prefixes removed from the country name, and \<open>re.sub\<close> of
  \<open>^(...)\s+\<close> under \<open>re.I\<close>: the first prefix that whitespace follows goes, with
  that whitespace.\<close>

definition COUNTRY_PREFIXES :: "ustr list" where
  "COUNTRY_PREFIXES =
     [U ''pa'' @ [324] @ U ''stwa'',
      U ''kraju'',
      U ''krajem'',
      U ''w'',
      U ''we'',
      U ''z'',
      U ''ze'']"

definition strip_country_prefix :: "ustr \<Rightarrow> ustr" where
  "strip_country_prefix s =
     (case find (\<lambda>a. ci_prefix a s \<and> (case drop (length a) s of
                                          [] \<Rightarrow> False | c # cs \<Rightarrow> isspace c))
                COUNTRY_PREFIXES of
        None \<Rightarrow> s
      | Some a \<Rightarrow> dropWhile isspace (drop (length a) s))"

text \<open>\<open>s.strip(" .")\<close>: spaces and dots go from both ends.\<close>

definition strip_space_dot :: "ustr \<Rightarrow> ustr" where
  "strip_space_dot s =
     rev (dropWhile (\<lambda>c. c = 32 \<or> c = 46) (rev (dropWhile (\<lambda>c. c = 32 \<or> c = 46) s)))"

text \<open>\<open>sent.split("<mask>")[0]\<close>: the text before the first occurrence.\<close>

fun before_first :: "ustr \<Rightarrow> ustr \<Rightarrow> ustr" where
  "before_first sep [] = []"
| "before_first sep (c # cs) =
     (if prefix sep (c # cs) then [] else c # before_first sep cs)"

text \<open>\<open>" ".join(tokens)\<close>.\<close>

fun join_space :: "ustr list \<Rightarrow> ustr" where
  "join_space [] = []"
| "join_space [t] = t"
| "join_space (t # ts) = t @ [32] @ join_space ts"

text \<open>Sequencing of calls that may raise: the first exception ends the comprehension.\<close>

fun map_raise :: "('a \<Rightarrow> exn + 'b) \<Rightarrow> 'a list \<Rightarrow> exn + 'b list" where
  "map_raise f [] = Inr []"
| "map_raise f (x # xs) =
     (case f x of
        Inl e \<Rightarrow> Inl e
      | Inr y \<Rightarrow> (case map_raise f xs of Inl e \<Rightarrow> Inl e | Inr ys \<Rightarrow> Inr (y # ys)))"

definition clean_tok :: "ustr \<Rightarrow> ustr" where
  "clean_tok s = strip (replace_str [9601] [] (replace_str [288] [] s))"

definition fill_one :: "engine \<Rightarrow> ustr \<Rightarrow> nat option \<Rightarrow> exn + (real \<times> ustr) list" where
  "fill_one e template topk_arg =
     (let t = replace_str (U ''<mask>'') (mask e) template
      in case fill e t of
           Inl x \<Rightarrow> Inl x
         | Inr preds \<Rightarrow>
             (let limit = (case topk_arg of
                             None \<Rightarrow> topk e
                           | Some k \<Rightarrow> if k = 0 then topk e else k)
              in Inr (map (\<lambda>p. (score p, clean_tok (token_str p)))
                          (filter (\<lambda>p. clean_tok (token_str p) \<noteq> []) (take limit preds)))))"

definition SPAN_STOP :: "ustr list" where
  "SPAN_STOP = [U '','', U ''.'', U '';'', U ''!'', U ''?'', U ''i'']"

fun greedy_span_loop ::
    "engine \<Rightarrow> ustr \<Rightarrow> nat \<Rightarrow> ustr \<Rightarrow> ustr list \<Rightarrow> exn + ustr list" where
  "greedy_span_loop e terminator 0 cur answer_tokens = Inr answer_tokens"
| "greedy_span_loop e terminator (Suc n) cur answer_tokens =
     (let template = cur @ U '' <mask>'' @ terminator
      in case fill_one e template (Some 5) of
           Inl x \<Rightarrow> Inl x
         | Inr cands \<Rightarrow>
             (case cands of
                [] \<Rightarrow> Inr answer_tokens
              | c # _ \<Rightarrow>
                  (let tok = snd c
                   in if tok \<in> set SPAN_STOP then Inr answer_tokens
                      else greedy_span_loop e terminator n (cur @ U '' '' @ tok)
                             (answer_tokens @ [tok]))))"

definition greedy_span :: "engine \<Rightarrow> ustr \<Rightarrow> nat \<Rightarrow> ustr \<Rightarrow> exn + ustr" where
  "greedy_span e pre max_tokens terminator =
     (case greedy_span_loop e terminator max_tokens pre [] of
        Inl x \<Rightarrow> Inl x
      | Inr answer_tokens \<Rightarrow> Inr (strip (join_space answer_tokens)))"

text \<open>The reranking shared by the capital and the template stage: every candidate is
  put into the sentence, the sentence is scored with \<open>pll\<close>, the pairs are sorted in
  descending order and the first one answers.\<close>

definition rerank :: "engine \<Rightarrow> ustr \<Rightarrow> ustr list \<Rightarrow> exn + ustr" where
  "rerank e sent cands =
     (case map_raise (\<lambda>c. case pll e (replace_str (U ''<mask>'') c sent) of
                             Inl x \<Rightarrow> Inl x
                           | Inr s \<Rightarrow> Inr (s, c)) cands of
        Inl x \<Rightarrow> Inl x
      | Inr scored \<Rightarrow> Inr (snd (hd (rev (sort scored)))))"

definition ask_capital :: "engine \<Rightarrow> ustr \<Rightarrow> exn + ustr option" where
  "ask_capital e country_raw =
     (let country = normalize_whitespace country_raw;
          country = (if country \<noteq> [] \<and> islower (hd country)
                     then upper1 (hd country) @ tl country else country);
          sent = U ''Stolic'' @ [261] @ U '' '' @ country @ U '' jest <mask>.''
      in case fill_one e sent (Some 5) of
           Inl x \<Rightarrow> Inl x
         | Inr scored_cands \<Rightarrow>
             (let cands = map snd scored_cands
              in if cands = [] then Inr None
                 else (case rerank e sent cands of
                         Inl x \<Rightarrow> Inl x
                       | Inr ans \<Rightarrow> Inr (Some ans))))"

definition yes_no :: "engine \<Rightarrow> ustr \<Rightarrow> exn + ustr" where
  "yes_no e q =
     (case pll e (strip q @ U '' Tak.'') of
        Inl x \<Rightarrow> Inl x
      | Inr s_yes \<Rightarrow>
          (case pll e (strip q @ U '' Nie.'') of
             Inl x \<Rightarrow> Inl x
           | Inr s_no \<Rightarrow> Inr (if s_yes > s_no then U ''Tak'' else U ''Nie'')))"

text \<open>The patterns of \<open>answer_general\<close>. The lexicon and the cloze templates are
  written with the same nine patterns, in the same order.\<close>

definition LEX1 :: "piece list" where
  "LEX1 =
     [Lit (U ''jak brzmi nazwa terenowej '' @ [322] @ U ''ady''),
      OptQ]"

definition LEX2 :: "piece list" where
  "LEX2 =
     [Lit (U ''jak nazywa si'' @ [281] @ U '' pojedynczy element schod'' @ [243] @ U ''w''),
      DotStar,
      Q]"

definition LEX3 :: "piece list" where
  "LEX3 =
     [Lit (U ''jak nazywaj'' @ [261] @ U '' si'' @ [281] @ U '' boczne pasy na mundurowych spodniach''),
      OptQ]"

definition LEX4 :: "piece list" where
  "LEX4 =
     [Lit (U ''jak nazywa'' @ [322] @ U '' si'' @ [281] @ U '' gigantyczny goryl, bohater film'' @ [243] @ U ''w japo'' @ [324] @ U ''skich''),
      OptQ]"

definition LEX5 :: "piece list" where
  "LEX5 =
     [Lit (U ''jak z '' @ [322] @ U ''aciny nazywa si'' @ [281] @ U '' dow'' @ [243] @ U ''d s'' @ [261] @ U ''dowy''),
      DotStar,
      Q]"

definition LEX6 :: "piece list" where
  "LEX6 =
     [Lit (U ''kt'' @ [243] @ U ''ry kolumbijski pisarz''),
      DotStar,
      Lit (U ''1927''),
      DotStar,
      Lit (U ''sto lat samotno'' @ [347] @ U ''ci''),
      DotStar,
      Q]"

definition LEX7 :: "piece list" where
  "LEX7 =
     [Lit (U ''w kt'' @ [243] @ U ''rym wieku zosta'' @ [322] @ U '' odlany dzwon zygmunta''),
      OptQ]"

definition LEX8 :: "piece list" where
  "LEX8 =
     [Lit (U ''z kt'' @ [243] @ U ''rego kontynentu pochodzi 90%''),
      DotStar,
      Lit (U ''ry'' @ [380] @ U ''u''),
      OptQ]"

definition LEX9 :: "piece list" where
  "LEX9 =
     [Lit (U ''kt'' @ [243] @ U ''ra organizacja powsta'' @ [322] @ U ''a wcze'' @ [347] @ U ''niej:''),
      DotStar,
      Lit (U ''ew''),
      DotStar,
      Lit (U ''euratom''),
      DotStar,
      Q]"

definition lexicon :: "(piece list \<times> ustr) list" where
  "lexicon =
     [(LEX1, U ''Niva''),
      (LEX2, U ''stopie'' @ [324]),
      (LEX3, U ''lampasy''),
      (LEX4, U ''King Kong''),
      (LEX5, U ''alibi''),
      (LEX6, U ''Gabriel Garc'' @ [237] @ U ''a M'' @ [225] @ U ''rquez''),
      (LEX7, U ''XVI''),
      (LEX8, U ''Azja''),
      (LEX9, U ''EWWiS'')]"

definition templates :: "(piece list \<times> ustr \<times> bool) list" where
  "templates =
     [(LEX1, U ''Terenowa '' @ [321] @ U ''ada to <mask>.'', False),
      (LEX2, U ''Pojedynczy element schod'' @ [243] @ U ''w to <mask>.'', False),
      (LEX3, U ''Boczne pasy na mundurowych spodniach to <mask>.'', False),
      (LEX4, U ''Gigantyczny goryl z film'' @ [243] @ U ''w nazywa'' @ [322] @ U '' si'' @ [281] @ U '' <mask>.'', False),
      (LEX5, U ''Dow'' @ [243] @ U ''d nieobecno'' @ [347] @ U ''ci sprawcy na miejscu to po '' @ [322] @ U ''acinie <mask>.'', False),
      (LEX6, U ''Autorem '' @ [8222] @ U ''Stu lat samotno'' @ [347] @ U ''ci'' @ [8221] @ U '' jest <mask>.'', True),
      (LEX7, U ''Dzwon Zygmunt odlano w <mask> wieku.'', False),
      (LEX8, U ''Dziewi'' @ [281, 263] @ U ''dziesi'' @ [261] @ U ''t procent '' @ [347] @ U ''wiatowej produkcji ry'' @ [380] @ U ''u pochodzi z <mask>.'', False),
      (LEX9, U ''<mask> powsta'' @ [322] @ U ''a wcze'' @ [347] @ U ''niej.'', False)]"

text \<open>
  The stages of the router, in the order of its source. A stage is entered when its
  test is evaluated; the list of the stages entered is returned with the answer.
\<close>

datatype stage = Arithmetic | YesNo | Capital | Lexicon | Templates | Generic | Unknown

definition STAGE_ORDER :: "stage list" where
  "STAGE_ORDER = [Arithmetic, YesNo, Capital, Lexicon, Templates, Generic, Unknown]"

text \<open>The body run for the first template whose pattern matches.\<close>

definition answer_template :: "engine \<Rightarrow> ustr \<Rightarrow> bool \<Rightarrow> exn + ustr option" where
  "answer_template e sent multi =
     (case (if multi
            then greedy_span e (rstrip (strip (before_first (U ''<mask>'') sent))) 3 (U ''.'')
            else Inr []) of
        Inl x \<Rightarrow> Inl x
      | Inr cand \<Rightarrow>
          (if multi \<and> cand \<noteq> [] then Inr (Some cand)
           else (case fill_one e sent (Some 5) of
                   Inl x \<Rightarrow> Inl x
                 | Inr scored_cands \<Rightarrow>
                     (let cands = map snd scored_cands
                      in if cands = [] then Inr None
                         else (case rerank e sent cands of
                                 Inl x \<Rightarrow> Inl x
                               | Inr ans \<Rightarrow> Inr (Some ans))))))"

definition answer_generic :: "engine \<Rightarrow> ustr \<Rightarrow> exn + ustr option" where
  "answer_generic e qs =
     (let generic = qs @ U '' Odpowied'' @ [378] @ U '': <mask>.''
      in case fill_one e generic (Some 3) of
           Inl x \<Rightarrow> Inl x
         | Inr scored_cands \<Rightarrow>
             (let cands = map snd scored_cands
              in if cands \<noteq> [] then Inr (Some (hd cands)) else Inr None))"

definition answer_general :: "engine \<Rightarrow> ustr \<Rightarrow> stage list \<times> (exn + ustr option)" where
  "answer_general e q =
     (let qs = normalize_whitespace q
      in case find (\<lambda>(pat, ans). pmatch pat qs) lexicon of
           Some (pat, ans) \<Rightarrow> ([Lexicon], Inr (Some ans))
         | None \<Rightarrow>
             (case find (\<lambda>(pat, sent, multi). pmatch pat qs) templates of
                Some (pat, sent, multi) \<Rightarrow> ([Lexicon, Templates], answer_template e sent multi)
              | None \<Rightarrow> ([Lexicon, Templates, Generic], answer_generic e qs)))"

section \<open>The router\<close>

text \<open>
  The router holds the engine once it is loaded. Loading (the constructor of the
  engine) is a parameter and may raise.
\<close>

record router =
  mlm :: "engine option"

definition ensure :: "(ustr \<Rightarrow> exn + engine) \<Rightarrow> ustr \<Rightarrow> router \<Rightarrow> exn + router" where
  "ensure load device r =
     (case mlm r of
        Some e \<Rightarrow> Inr r
      | None \<Rightarrow> (case load device of Inl x \<Rightarrow> Inl x | Inr e \<Rightarrow> Inr (r\<lparr>mlm := Some e\<rparr>)))"

text \<open>The capital stage: the first pattern that matches decides.\<close>

definition capital_stage :: "engine \<Rightarrow> ustr \<Rightarrow> exn + ustr option" where
  "capital_stage e q_clean =
     (case List.map_filter (\<lambda>pat. capital_match pat q_clean) CAPITAL_PATTERNS of
        [] \<Rightarrow> Inr None
      | country # _ \<Rightarrow> ask_capital e (strip_space_dot (strip_country_prefix country)))"

text \<open>\<open>answer_one\<close> after \<open>ensure\<close>, with the engine at hand.\<close>

definition answer_with_engine :: "engine \<Rightarrow> ustr \<Rightarrow> stage list \<times> (exn + ustr)" where
  "answer_with_engine e q_clean =
     (if prefix (U ''czy '') (lower q_clean) then ([YesNo], yes_no e q_clean)
      else (case capital_stage e q_clean of
              Inl x \<Rightarrow> ([YesNo, Capital], Inl x)
            | Inr (Some ans) \<Rightarrow>
                if ans \<noteq> [] then ([YesNo, Capital], Inr ans)
                else (case answer_general e q_clean of
                        (st, Inl x) \<Rightarrow> ([YesNo, Capital] @ st, Inl x)
                      | (st, Inr (Some a)) \<Rightarrow>
                          if a \<noteq> [] then ([YesNo, Capital] @ st, Inr a)
                          else ([YesNo, Capital] @ st @ [Unknown], Inr (U ''nie wiem''))
                      | (st, Inr None) \<Rightarrow>
                          ([YesNo, Capital] @ st @ [Unknown], Inr (U ''nie wiem'')))
            | Inr None \<Rightarrow>
                (case answer_general e q_clean of
                   (st, Inl x) \<Rightarrow> ([YesNo, Capital] @ st, Inl x)
                 | (st, Inr (Some a)) \<Rightarrow>
                     if a \<noteq> [] then ([YesNo, Capital] @ st, Inr a)
                     else ([YesNo, Capital] @ st @ [Unknown], Inr (U ''nie wiem''))
                 | (st, Inr None) \<Rightarrow>
                     ([YesNo, Capital] @ st @ [Unknown], Inr (U ''nie wiem'')))))"

definition answer_one ::
    "runtime \<Rightarrow> (ustr \<Rightarrow> exn + engine) \<Rightarrow> router \<Rightarrow> ustr
       \<Rightarrow> (stage list \<times> (exn + ustr)) \<times> router" where
  "answer_one rt load r q =
     (let q_clean = normalize_whitespace q
      in case try_arithmetic rt q_clean of
           Inl x \<Rightarrow> (([Arithmetic], Inl x), r)
         | Inr (Some a) \<Rightarrow> (([Arithmetic], Inr a), r)
         | Inr None \<Rightarrow>
             (case ensure load (U ''auto'') r of
                Inl x \<Rightarrow> (([Arithmetic], Inl x), r)
              | Inr r' \<Rightarrow>
                  (case mlm r' of
                     None \<Rightarrow> (([Arithmetic], Inl (RuntimeError (U ''no engine''))), r')
                   | Some e \<Rightarrow>
                       (case answer_with_engine e q_clean of
                          (st, res) \<Rightarrow> ((Arithmetic # st, res), r')))))"

definition error_answer :: "exn \<Rightarrow> ustr" where
  "error_answer e = U ''[b'' @ [322, 261] @ U ''d: '' @ exn_str e @ U '']''"

fun answer_loop ::
    "runtime \<Rightarrow> (ustr \<Rightarrow> exn + engine) \<Rightarrow> router \<Rightarrow> ustr list \<Rightarrow> (ustr \<times> ustr) list
       \<Rightarrow> (ustr \<times> ustr) list \<times> router" where
  "answer_loop rt load r [] out = (out, r)"
| "answer_loop rt load r (q # questions) out =
     (case answer_one rt load r q of
        ((st, res), r') \<Rightarrow>
          (let ans = (case res of Inl e \<Rightarrow> error_answer e | Inr a \<Rightarrow> a)
           in answer_loop rt load r' questions (out @ [(q, ans)])))"

definition answer_many ::
    "runtime \<Rightarrow> (ustr \<Rightarrow> exn + engine) \<Rightarrow> router \<Rightarrow> ustr list \<Rightarrow> ustr
       \<Rightarrow> (exn + (ustr \<times> ustr) list) \<times> router" where
  "answer_many rt load r questions device =
     (case ensure load device r of
        Inl x \<Rightarrow> (Inl x, r)
      | Inr r' \<Rightarrow>
          (case answer_loop rt load r' (sort_questions questions) [] of
             (out, r'') \<Rightarrow> (Inr out, r'')))"

section \<open>Sample adapters\<close>

text \<open>
  Small adapters on which the theorems are instantiated: a tokenizer over a vocabulary
  of three ids, models with uniform logits, a fill-mask pipeline with two fixed
  fillers, a tokenizer that fails on texts with an exclamation mark, and an evaluator
  that knows one sum and raises on everything else.
\<close>

definition example_tokenize :: tokenizer_fn where
  "example_tokenize add_special_tokens text =
     (if add_special_tokens then [0] @ map (\<lambda>c. 1 + c mod 2) text @ [0]
      else map (\<lambda>c. 1 + c mod 2) text)"

definition example_causal_lm :: model_fn where
  "example_causal_lm ids = Inr (map (\<lambda>t. [0, 0, 0]) ids)"

text \<open>A vocabulary of forty tokens: token 0 is the word \<open>b\<close>, every other token the
  word \<open>a\<close>, each with its leading space; the model prefers token 0 by far.\<close>

definition example_decode :: "nat \<Rightarrow> ustr" where
  "example_decode tok_id = (if tok_id = 0 then U '' b'' else U '' a'')"

definition example_logits :: "real list" where
  "example_logits = 30 # replicate 39 0"

definition example_engine :: engine where
  "example_engine =
     \<lparr>tokenizer = (\<lambda>text. if 33 \<in> set text then Inl (RuntimeError (U ''tokenizer failed''))
                          else Inr (example_tokenize True text, replicate (length text + 2) 1)),
      model = example_causal_lm,
      fill = (\<lambda>t. Inr [\<lparr>score = 0.6, token_str = U ''.''\<rparr>,
                        \<lparr>score = 0.3, token_str = [288] @ U ''Warszawa''\<rparr>]),
      mask_token_id = 0,
      mask = U ''<mask>'',
      topk = 10\<rparr>"

definition example_load :: "ustr \<Rightarrow> exn + engine" where
  "example_load device = Inr example_engine"

definition new_router :: router where
  "new_router = \<lparr>mlm = None\<rparr>"

definition loaded_router :: router where
  "loaded_router = \<lparr>mlm = Some example_engine\<rparr>"

text \<open>A loader that cannot find the model, and an engine whose pipeline proposes nothing.\<close>

definition failing_load :: "ustr \<Rightarrow> exn + engine" where
  "failing_load device = Inl (RuntimeError (U ''model not found''))"

definition silent_engine :: engine where
  "silent_engine = example_engine\<lparr>fill := (\<lambda>t. Inr [])\<rparr>"

definition silent_router :: router where
  "silent_router = \<lparr>mlm = Some silent_engine\<rparr>"

text \<open>The first question of the lexicon: \<open>Jak brzmi nazwa terenowej Lady?\<close> with
  the Polish capital letter U+0141.\<close>

definition lada_question :: ustr where
  "lada_question = U ''Jak brzmi nazwa terenowej '' @ [321] @ U ''ady?''"

definition example_runtime :: runtime where
  "example_runtime =
     \<lparr>py_eval = (\<lambda>builtins expr. if expr = U ''2+2'' then Inr (PyInt 4)
                                   else Inl (ZeroDivisionError (U ''division by zero''))),
      percent_of = (\<lambda>a b. U ''100.0''),
      format_10g = (\<lambda>v. U ''0.5'')\<rparr>"

section \<open>Properties of the candidate scorer\<close>

lemma repetition_ratio_total:
  "\<exists>r. repetition_ratio t = Inr r \<and> 0 < r \<and> r \<le> 1"
proof -
  define tokens where "tokens = filter (\<lambda>t. t \<noteq> []) (findall_w (lower t))"
  show ?thesis
  proof (cases "tokens = []")
    case True
    then show ?thesis
      by (simp add: repetition_ratio_def tokens_def)
  next
    case False
    then have pos: "0 < length tokens" by simp
    have ne: "set tokens \<noteq> {}" using False by simp
    have le: "card (set tokens) \<le> length tokens" by (rule card_length)
    have cpos: "0 < card (set tokens)" using ne by (simp add: card_gt_0_iff)
    have "repetition_ratio t = Inr (real (card (set tokens)) / real (length tokens))"
      using False by (simp add: repetition_ratio_def tokens_def [symmetric] truediv_def Let_def)
    moreover have "0 < real (card (set tokens)) / real (length tokens)"
      using pos cpos by simp
    moreover have "real (card (set tokens)) / real (length tokens) \<le> 1"
      using pos le by simp
    ultimately show ?thesis by blast
  qed
qed

lemma jaccard_sim_total:
  "\<exists>j. jaccard_sim a b = Inr j \<and> 0 \<le> j \<and> j \<le> 1"
proof -
  define A where "A = set (findall_w (lower a))"
  define B where "B = set (findall_w (lower b))"
  have fin: "finite A" "finite B" by (simp_all add: A_def B_def)
  show ?thesis
  proof (cases "A = {} \<or> B = {}")
    case True
    then show ?thesis
      by (auto simp: jaccard_sim_def A_def B_def Let_def)
  next
    case False
    then have "A \<union> B \<noteq> {}" by blast
    then have upos: "0 < card (A \<union> B)" using fin by (simp add: card_gt_0_iff)
    have le: "card (A \<inter> B) \<le> card (A \<union> B)"
      using fin by (intro card_mono) auto
    have "jaccard_sim a b = Inr (real (card (A \<inter> B)) / real (card (A \<union> B)))"
      using False upos
      by (simp add: jaccard_sim_def A_def [symmetric] B_def [symmetric] truediv_def Let_def)
    moreover have "0 \<le> real (card (A \<inter> B)) / real (card (A \<union> B))" by simp
    moreover have "real (card (A \<inter> B)) / real (card (A \<union> B)) \<le> 1"
      using upos le by simp
    ultimately show ?thesis by blast
  qed
qed

text \<open>
  Claim C10. For every reference utterance and every candidate, empty ones and ones
  without a word included, \<open>score_candidate\<close> returns a real number and raises nothing
  (no division by zero is ever reached); the number lies between the length penalty
  minus one half and 1.6. \<open>repetition_ratio\<close> is 1 on a text without a word, and
  \<open>jaccard_sim\<close> is 0 as soon as one of the two texts has no word.
\<close>

theorem score_candidate_finite:
  "(\<exists>v. score_candidate u c = Inr v
        \<and> - 0.002 * real_of_int (max 0 (int (length (strip c)) - 120)) - 0.5 \<le> v
        \<and> v \<le> 1.6)
   \<and> (findall_w (lower t) = [] \<longrightarrow> repetition_ratio t = Inr 1)
   \<and> (findall_w (lower a) = [] \<or> findall_w (lower b) = [] \<longrightarrow> jaccard_sim a b = Inr 0)"
proof (intro conjI impI)
  obtain r where r: "repetition_ratio (strip c) = Inr r" "0 < r" "r \<le> 1"
    using repetition_ratio_total by blast
  obtain j where j: "jaccard_sim u (strip c) = Inr j" "0 \<le> j" "j \<le> 1"
    using jaccard_sim_total by blast
  define L where "L = real_of_int (max 0 (int (length (strip c)) - 120))"
  define bonus :: real where
    "bonus = (if 25 \<le> int (length (strip c)) \<and> int (length (strip c)) \<le> 160 then 0.2 else 0.0)"
  define es :: real where "es = (if search_end_mark (strip c) then 0.2 else 0.0)"
  define rp :: real where
    "rp = (if contains (U ''USER:'') (strip c) \<or> contains (U ''BOT:'') (drop 5 (strip c))
           then - 0.5 else 0.0)"
  have L: "0 \<le> L" by (simp add: L_def)
  have bonus: "0 \<le> bonus" "bonus \<le> 0.2" by (simp_all add: bonus_def)
  have es: "0 \<le> es" "es \<le> 0.2" by (simp_all add: es_def)
  have rp: "- 0.5 \<le> rp" "rp \<le> 0" by (simp_all add: rp_def)
  have val: "score_candidate u c = Inr (- 0.002 * L + bonus + 0.6 * r + es + 0.6 * j + rp)"
    using r(1) j(1)
    by (simp add: score_candidate_def Let_def L_def bonus_def es_def rp_def)
  have lo: "- 0.002 * L - 0.5 \<le> - 0.002 * L + bonus + 0.6 * r + es + 0.6 * j + rp"
    using bonus es rp r(2,3) j(2,3) by (simp add: algebra_simps power3_eq_cube)
  have hi: "- 0.002 * L + bonus + 0.6 * r + es + 0.6 * j + rp \<le> 1.6"
    using L bonus es rp r(2,3) j(2,3) by (simp add: algebra_simps power3_eq_cube)
  show "\<exists>v. score_candidate u c = Inr v
        \<and> - 0.002 * real_of_int (max 0 (int (length (strip c)) - 120)) - 0.5 \<le> v
        \<and> v \<le> 1.6"
    using val lo hi unfolding L_def by blast
next
  assume "findall_w (lower t) = []"
  then show "repetition_ratio t = Inr 1"
    by (simp add: repetition_ratio_def)
next
  assume "findall_w (lower a) = [] \<or> findall_w (lower b) = []"
  then show "jaccard_sim a b = Inr 0"
    by (auto simp: jaccard_sim_def Let_def)
qed

theorem score_candidate_finite_witness:
  "(\<exists>v. score_candidate (U ''Ala ma kota'') (U '' Kot, kot i kot! '') = Inr v
        \<and> - 0.5 \<le> v \<and> v \<le> 1.6)
   \<and> findall_w (lower (U ''?! ...'')) = [] \<and> repetition_ratio (U ''?! ...'') = Inr 1
   \<and> findall_w (lower []) = [] \<and> jaccard_sim [] (U ''kot'') = Inr 0"
proof -
  have w: "findall_w (lower (U ''?! ...'')) = []" "findall_w (lower []) = []"
    by (simp_all add: findall_w_def lower_def U_def is_word_def isalnum_def simple_lower_def)
  have s: "int (length (strip (U '' Kot, kot i kot! ''))) = 15"
    by (simp add: strip_def lstrip_def rstrip_def U_def isspace_def)
  show ?thesis
    using score_candidate_finite [of "U ''Ala ma kota''" "U '' Kot, kot i kot! ''"
        "U ''?! ...''" "[]" "U ''kot''"] w s
    by simp
qed

section \<open>Properties of the nucleus truncation\<close>

lemma expx_nonneg: "0 \<le> expx x"
  by (cases x) (simp_all add: expx_def)

lemma sum_expx_pos:
  assumes "Some r \<in> set xs"
  shows "0 < sum_list (map expx xs)"
proof -
  have "expx (Some r) \<le> sum_list (map expx xs)"
    using assms by (intro member_le_sum_list) (auto simp: expx_nonneg)
  moreover have "0 < expx (Some r)" by (simp add: expx_def)
  ultimately show ?thesis by linarith
qed


lemma length_cumsum_from: "length (cumsum_from a xs) = length xs"
  by (induction xs arbitrary: a) simp_all


lemma length_cumsum: "length (cumsum xs) = length xs"
  by (simp add: cumsum_def length_cumsum_from)


lemma hd_filter_upt:
  "filter P [0..<n] \<noteq> [] \<Longrightarrow>
     hd (filter P [0..<n]) < n \<and> P (hd (filter P [0..<n]))
     \<and> (\<forall>j < hd (filter P [0..<n]). \<not> P j)"
proof (induction n)
  case 0
  then show ?case by simp
next
  case (Suc n)
  show ?case
  proof (cases "filter P [0..<n] = []")
    case True
    then have none: "\<forall>j<n. \<not> P j"
      by (simp add: filter_empty_conv)
    have "P n"
    proof (rule ccontr)
      assume "\<not> P n"
      with True have "filter P [0..<Suc n] = []" by simp
      with Suc.prems show False by blast
    qed
    then have "filter P [0..<Suc n] = [n]" using True by simp
    then have heq: "hd (filter P [0..<Suc n]) = n" by simp
    show ?thesis
      unfolding heq using \<open>P n\<close> none by simp
  next
    case False
    define h where "h = hd (filter P [0..<n])"
    have heq: "hd (filter P [0..<Suc n]) = h"
      using False by (simp add: h_def)
    from Suc.IH [OF False] have h: "h < n" "P h" "\<forall>j < h. \<not> P j"
      unfolding h_def by blast+
    show ?thesis
      unfolding heq using h by simp
  qed
qed

lemma first_cutoff:
  assumes "cutoff_positions cum \<noteq> []"
  shows "hd (cutoff_positions cum) < length cum"
    and "cum ! hd (cutoff_positions cum) > TOP_P"
    and "\<forall>j < hd (cutoff_positions cum). cum ! j \<le> TOP_P"
proof -
  let ?P = "\<lambda>i. cum ! i > TOP_P"
  have ne: "filter ?P [0..<length cum] \<noteq> []"
    using assms unfolding cutoff_positions_def .
  have eq: "cutoff_positions cum = filter ?P [0..<length cum]"
    by (simp only: cutoff_positions_def)
  from hd_filter_upt [OF ne]
  have a: "hd (filter ?P [0..<length cum]) < length cum"
    and b: "?P (hd (filter ?P [0..<length cum]))"
    and c: "\<forall>j < hd (filter ?P [0..<length cum]). \<not> ?P j"
    by blast+
  show "hd (cutoff_positions cum) < length cum" unfolding eq by (rule a)
  show "cum ! hd (cutoff_positions cum) > TOP_P" unfolding eq by (rule b)
  show "\<forall>j < hd (cutoff_positions cum). cum ! j \<le> TOP_P"
    unfolding eq using c by (simp only: not_less)
qed


lemma hd_filter_upt_eq:
  assumes "k < n" "P k" "\<forall>j<k. \<not> P j"
  shows "filter P [0..<n] \<noteq> [] \<and> hd (filter P [0..<n]) = k"
proof -
  have ne: "filter P [0..<n] \<noteq> []"
    unfolding filter_empty_conv using assms(1,2) by auto
  from hd_filter_upt [OF ne] have h: "P (hd (filter P [0..<n]))"
    "\<forall>j < hd (filter P [0..<n]). \<not> P j" by blast+
  have "\<not> hd (filter P [0..<n]) < k" using assms(3) h(1) by blast
  moreover have "\<not> k < hd (filter P [0..<n])" using assms(2) h(2) by blast
  ultimately show ?thesis using ne by simp
qed







section \<open>Properties of the continuation scorer\<close>





section \<open>Properties of the pseudo log-likelihood\<close>

lemma pll_loop_sum:
  assumes "\<forall>i\<in>set ps. i < length attn"
    and "\<forall>i\<in>set ps. attn ! i \<noteq> 0 \<longrightarrow> masked_logprob e ids i = Inr (lp i)"
  shows "pll_loop e ids attn ps acc n
         = Inr (acc + sum_list (map lp (filter (\<lambda>i. attn ! i \<noteq> 0) ps)),
                n + length (filter (\<lambda>i. attn ! i \<noteq> 0) ps))"
  using assms
proof (induction ps arbitrary: acc n)
  case Nil
  then show ?case by simp
next
  case (Cons i ps)
  have i: "getitem attn i = Inr (attn ! i)"
    using Cons.prems(1) by (simp add: getitem_def)
  have rest: "\<forall>j\<in>set ps. j < length attn"
    "\<forall>j\<in>set ps. attn ! j \<noteq> 0 \<longrightarrow> masked_logprob e ids j = Inr (lp j)"
    using Cons.prems by simp_all
  show ?case
  proof (cases "attn ! i = 0")
    case True
    then show ?thesis
      using i Cons.IH [OF rest, of acc n] by simp
  next
    case False
    then have "masked_logprob e ids i = Inr (lp i)"
      using Cons.prems(2) by simp
    then show ?thesis
      using i False Cons.IH [OF rest, of "acc + lp i" "n + 1"] by (simp add: add.assoc)
  qed
qed


lemma length_log_softmax: "length (log_softmax xs) = length xs"
  by (simp add: log_softmax_def)

lemma log_softmax_uniform: "t < 3 \<Longrightarrow> log_softmax [0, 0, 0] ! t = - ln 3"
  by (simp add: log_softmax_def nth_Cons' )

lemma example_masked_logprob:
  assumes "i < length ids" "ids ! i < 3"
  shows "masked_logprob example_engine ids i = Inr (- ln 3)"
  using assms
  by (simp add: masked_logprob_def example_engine_def example_causal_lm_def getitem_def
      log_softmax_uniform length_log_softmax Let_def)

lemma example_token_ids:
  "i < length (example_tokenize True text) \<Longrightarrow> example_tokenize True text ! i < 3"
proof -
  have "\<forall>t\<in>set (example_tokenize True text). t < 3"
    by (auto simp: example_tokenize_def)
  then show "i < length (example_tokenize True text) \<Longrightarrow> example_tokenize True text ! i < 3"
    by simp
qed

lemma example_pll:
  assumes "33 \<notin> set text" "text \<noteq> []"
  shows "pll example_engine text = Inr (- ln 3)"
proof -
  let ?ids = "example_tokenize True text"
  let ?attn = "replicate (length text + 2) (1::nat)"
  let ?ps = "[1..<length ?ids - 1]"
  have len: "length ?ids = length text + 2" by (simp add: example_tokenize_def)
  have tok: "tokenizer example_engine text = Inr (?ids, ?attn)"
    using assms(1) by (simp add: example_engine_def)
  have inb: "\<forall>i\<in>set ?ps. i < length ?attn" using len by auto
  have lp: "\<forall>i\<in>set ?ps. ?attn ! i \<noteq> 0
              \<longrightarrow> masked_logprob example_engine ?ids i = Inr ((\<lambda>i. - ln 3) i)"
    using len example_token_ids [of _ "text"] by (auto intro!: example_masked_logprob)
  have one: "?attn ! i = 1" if "i < length text + 2" for i
    using that by (rule nth_replicate)
  have all: "filter (\<lambda>i. ?attn ! i \<noteq> 0) ?ps = ?ps"
  proof (rule filter_True, intro ballI)
    fix i assume "i \<in> set ?ps"
    then have "i < length text + 2" using len by auto
    then show "?attn ! i \<noteq> 0" using one by presburger
  qed
  have n: "length ?ps = length text" unfolding length_upt len by arith
  have "pll_loop example_engine ?ids ?attn ?ps 0 0
        = Inr (0 + sum_list (map (\<lambda>i. - ln 3) ?ps), 0 + length ?ps)"
    using pll_loop_sum [OF inb lp, of 0 0] unfolding all .
  also have "sum_list (map (\<lambda>i. - ln (3::real)) ?ps) = real (length text) * (- ln 3)"
    using n by (simp add: sum_list_triv del: upt_Suc)
  finally have loop: "pll_loop example_engine ?ids ?attn ?ps 0 0
        = Inr (real (length text) * (- ln 3), length text)"
    using n by simp
  have pos: "0 < length text" using assms(2) by simp
  then have mx: "max (length text) 1 = length text" by arith
  have "pll example_engine text = fdiv (real (length text) * (- ln 3)) (max (length text) 1)"
    using tok loop by (simp add: pll_def)
  then show ?thesis
    unfolding mx using pos by (simp add: fdiv_def)
qed


section \<open>Properties of the arithmetic heuristic\<close>

lemma unsafe_char_survives:
  assumes "c \<in> set s" "\<not> SAFE_CHAR c"
  shows "\<not> SAFE_EXPR_RE_match (filter (\<lambda>c. \<not> isspace c) s)"
proof -
  have "\<not> isspace c" using assms(2) by (auto simp: SAFE_CHAR_def)
  then have "c \<in> set (filter (\<lambda>c. \<not> isspace c) s)" using assms(1) by simp
  then have "\<not> list_all SAFE_CHAR (filter (\<lambda>c. \<not> isspace c) s)"
    using assms(2) unfolding list_all_iff by blast
  then show ?thesis by (simp add: SAFE_EXPR_RE_match_def)
qed

text \<open>
  Claim C8. For a question that matches a trigger phrase: when the expression left
  after the rewriting of the percent pattern and of the commas holds a character
  outside the digits, the operators \<open>+ - * /\<close>, the parentheses, the percent sign, the
  comma, the dot and whitespace, \<open>try_arithmetic\<close> returns \<open>None\<close> and raises
  nothing; when the evaluation of the expression raises, it returns \<open>None\<close> too. The
  evaluator is called with empty builtins only: two runtimes whose evaluators agree on
  empty builtins give the same result.
\<close>

theorem try_arithmetic_no_match_on_unsafe_or_error:
  assumes "ARITH_RE_match (sub_final_qmark (strip (lower q))) = Some n"
  shows "((\<exists>c\<in>set (arith_rewritten rt (sub_final_qmark (strip (lower q))) n). \<not> SAFE_CHAR c)
            \<longrightarrow> try_arithmetic rt q = Inr None)
       \<and> ((\<exists>e. py_eval rt Map.empty
                  (filter (\<lambda>c. \<not> isspace c)
                     (arith_rewritten rt (sub_final_qmark (strip (lower q))) n)) = Inl e)
            \<longrightarrow> try_arithmetic rt q = Inr None)
       \<and> (\<forall>rt'. py_eval rt' Map.empty = py_eval rt Map.empty
                 \<and> percent_of rt' = percent_of rt \<and> format_10g rt' = format_10g rt
            \<longrightarrow> try_arithmetic rt' q = try_arithmetic rt q)"
proof (intro conjI impI allI)
  assume "\<exists>c\<in>set (arith_rewritten rt (sub_final_qmark (strip (lower q))) n). \<not> SAFE_CHAR c"
  then obtain c where "c \<in> set (arith_rewritten rt (sub_final_qmark (strip (lower q))) n)"
    "\<not> SAFE_CHAR c" by blast
  from unsafe_char_survives [OF this] show "try_arithmetic rt q = Inr None"
    using assms by (simp add: try_arithmetic_def Let_def)
next
  assume "\<exists>e. py_eval rt Map.empty
                  (filter (\<lambda>c. \<not> isspace c)
                     (arith_rewritten rt (sub_final_qmark (strip (lower q))) n)) = Inl e"
  then show "try_arithmetic rt q = Inr None"
    using assms by (auto simp: try_arithmetic_def Let_def)
next
  fix rt' :: runtime
  assume eq: "py_eval rt' Map.empty = py_eval rt Map.empty
                 \<and> percent_of rt' = percent_of rt \<and> format_10g rt' = format_10g rt"
  have pr: "percent_rewrite rt' s = percent_rewrite rt s" for s
    using eq by (induction s) (simp_all split: option.splits)
  have rw: "arith_rewritten rt' s k = arith_rewritten rt s k" for s k
    by (simp add: arith_rewritten_def pr)
  have rv: "render_value rt' v = render_value rt v" for v
    using eq by (simp add: render_value_def split: pyval.splits)
  have ev: "py_eval rt' Map.empty = py_eval rt Map.empty" using eq by blast
  show "try_arithmetic rt' q = try_arithmetic rt q"
    unfolding try_arithmetic_def rw rv ev by (rule refl)
qed

lemmas text_evals = U_def lower_def simple_lower_def strip_def lstrip_def rstrip_def isspace_def
  normalize_whitespace_def at_dollar_def

lemmas arith_evals = try_arithmetic_def ARITH_RE_match_def ARITH_TRIGGERS_def ci_prefix_def
  ci_eq_def arith_rewritten_def replace_str_def percent_match_here_def take_number_def
  isdigit_d_def SAFE_EXPR_RE_match_def SAFE_CHAR_def render_value_def str_int_def Let_def

lemma ex_prep1: "sub_final_qmark (strip (lower (U ''Ile to 2+x?''))) = U ''ile to 2+x''"
  by (simp add: text_evals)

lemma ex_match1: "ARITH_RE_match (U ''ile to 2+x'') = Some 7"
  by (simp add: text_evals arith_evals)

lemma ex_rewritten1: "arith_rewritten example_runtime (U ''ile to 2+x'') 7 = U ''2+x''"
  by (simp add: text_evals arith_evals)

lemma ex_prep2: "sub_final_qmark (strip (lower (U ''Policz: 1/0''))) = U ''policz: 1/0''"
  by (simp add: text_evals)

lemma ex_match2: "ARITH_RE_match (U ''policz: 1/0'') = Some 8"
  by (simp add: text_evals arith_evals)

lemma ex_rewritten2: "arith_rewritten example_runtime (U ''policz: 1/0'') 8 = U ''1/0''"
  by (simp add: text_evals arith_evals)

theorem try_arithmetic_no_match_on_unsafe_or_error_witness:
  "try_arithmetic example_runtime (U ''Ile to 2+x?'') = Inr None
   \<and> try_arithmetic example_runtime (U ''Policz: 1/0'') = Inr None"
proof -
  have m1: "ARITH_RE_match (sub_final_qmark (strip (lower (U ''Ile to 2+x?'')))) = Some 7"
    by (simp only: ex_prep1 ex_match1)
  have bad: "\<exists>c\<in>set (arith_rewritten example_runtime
                 (sub_final_qmark (strip (lower (U ''Ile to 2+x?'')))) 7). \<not> SAFE_CHAR c"
    unfolding ex_prep1 ex_rewritten1 by (simp add: U_def SAFE_CHAR_def isspace_def)
  have m2: "ARITH_RE_match (sub_final_qmark (strip (lower (U ''Policz: 1/0'')))) = Some 8"
    by (simp only: ex_prep2 ex_match2)
  have err: "\<exists>e. py_eval example_runtime Map.empty
                  (filter (\<lambda>c. \<not> isspace c)
                     (arith_rewritten example_runtime
                        (sub_final_qmark (strip (lower (U ''Policz: 1/0'')))) 8)) = Inl e"
    unfolding ex_prep2 ex_rewritten2 by (simp add: U_def isspace_def example_runtime_def)
  show ?thesis
    using try_arithmetic_no_match_on_unsafe_or_error [OF m1, of example_runtime] bad
      try_arithmetic_no_match_on_unsafe_or_error [OF m2, of example_runtime] err
    by blast
qed

section \<open>Properties of the router: yes/no questions\<close>

lemma rstrip_keeps_head:
  assumes "\<not> isspace c"
  shows "\<exists>ys. rstrip (c # xs) = c # ys"
proof (cases "\<forall>x\<in>set (rev xs). isspace x")
  case True
  then have "dropWhile isspace (rev xs @ [c]) = [c]"
    using assms by (simp add: dropWhile_append)
  then show ?thesis by (simp add: rstrip_def)
next
  case False
  then have "dropWhile isspace (rev xs @ [c]) = dropWhile isspace (rev xs) @ [c]"
    by (auto simp: dropWhile_append)
  then have "rstrip (c # xs) = c # rev (dropWhile isspace (rev xs))"
    by (simp add: rstrip_def)
  then show ?thesis by blast
qed

lemma strip_keeps_head:
  assumes "\<not> isspace c"
  shows "\<exists>ys. strip (c # xs) = c # ys"
  using assms rstrip_keeps_head [OF assms] by (simp add: strip_def lstrip_def)

lemma no_trigger_starts_with_c: "ARITH_RE_match (99 # zs) = None"
  by (simp add: ARITH_RE_match_def ARITH_TRIGGERS_def U_def ci_prefix_def ci_eq_def
      simple_lower_def)

lemma czy_not_arithmetic:
  assumes "prefix (U ''czy '') (lower qc)"
  shows "try_arithmetic rt qc = Inr None"
proof -
  from assms obtain rest where "lower qc = 99 # rest"
    by (auto simp: prefix_def U_def)
  moreover have "\<not> isspace 99" by (simp add: isspace_def)
  ultimately obtain ys where "strip (lower qc) = 99 # ys"
    using strip_keeps_head by metis
  then have "sub_final_qmark (strip (lower qc)) = 99 # sub_final_qmark ys" by simp
  then show ?thesis
    by (simp add: try_arithmetic_def no_trigger_starts_with_c)
qed

lemma answer_one_czy:
  assumes "prefix (U ''czy '') (lower (normalize_whitespace q))"
    and "ensure load (U ''auto'') r = Inr r'" and "mlm r' = Some e"
  shows "fst (answer_one rt load r q)
         = ([Arithmetic, YesNo], yes_no e (normalize_whitespace q))"
  using assms czy_not_arithmetic [OF assms(1), of rt]
  by (simp add: answer_one_def answer_with_engine_def Let_def)

lemma yes_no_cases:
  "(\<exists>x. yes_no e q = Inl x) \<or> yes_no e q = Inr (U ''Tak'') \<or> yes_no e q = Inr (U ''Nie'')"
  by (simp add: yes_no_def split: sum.splits)

text \<open>
  Claim C6. For a question whose normalized lower-case text starts with \<open>czy \<close>,
  once the engine is loaded: the arithmetic heuristic does not answer, and
  \<open>answer_one\<close> ends in the yes/no stage. When both calls of \<open>pll\<close> return, the
  answer is \<open>Tak\<close> if the score of the question followed by \<open> Tak.\<close> is strictly
  greater than the score of the question followed by \<open> Nie.\<close>, and \<open>Nie\<close> otherwise,
  so a tie gives \<open>Nie\<close>. Whatever \<open>answer_one\<close> returns for such a question is
  \<open>Tak\<close> or \<open>Nie\<close>, never \<open>nie wiem\<close>.
\<close>

theorem yes_no_question_resolves_by_pll:
  assumes "prefix (U ''czy '') (lower (normalize_whitespace q))"
    and "ensure load (U ''auto'') r = Inr r'" and "mlm r' = Some e"
  shows "fst (fst (answer_one rt load r q)) = [Arithmetic, YesNo]
       \<and> (\<forall>s_yes s_no.
             pll e (strip (normalize_whitespace q) @ U '' Tak.'') = Inr s_yes
             \<and> pll e (strip (normalize_whitespace q) @ U '' Nie.'') = Inr s_no
             \<longrightarrow> snd (fst (answer_one rt load r q))
                  = Inr (if s_yes > s_no then U ''Tak'' else U ''Nie''))
       \<and> (\<forall>a. snd (fst (answer_one rt load r q)) = Inr a
             \<longrightarrow> (a = U ''Tak'' \<or> a = U ''Nie'') \<and> a \<noteq> U ''nie wiem'')"
proof -
  have a: "fst (answer_one rt load r q)
      = ([Arithmetic, YesNo], yes_no e (normalize_whitespace q))"
    by (rule answer_one_czy [OF assms])
  have ne: "U ''Tak'' \<noteq> U ''nie wiem''" "U ''Nie'' \<noteq> U ''nie wiem''"
    by (simp_all add: U_def)
  show ?thesis
  proof (intro conjI allI impI)
    show "fst (fst (answer_one rt load r q)) = [Arithmetic, YesNo]" using a by simp
  next
    fix s_yes s_no
    assume "pll e (strip (normalize_whitespace q) @ U '' Tak.'') = Inr s_yes
             \<and> pll e (strip (normalize_whitespace q) @ U '' Nie.'') = Inr s_no"
    then show "snd (fst (answer_one rt load r q))
                  = Inr (if s_yes > s_no then U ''Tak'' else U ''Nie'')"
      using a by (simp add: yes_no_def)
  next
    fix a' assume "snd (fst (answer_one rt load r q)) = Inr a'"
    then have "yes_no e (normalize_whitespace q) = Inr a'" using a by simp
    then show "a' = U ''Tak'' \<or> a' = U ''Nie''"
      using yes_no_cases [of e "normalize_whitespace q"] by auto
  next
    fix a' assume "snd (fst (answer_one rt load r q)) = Inr a'"
    then have "yes_no e (normalize_whitespace q) = Inr a'" using a by simp
    then have "a' = U ''Tak'' \<or> a' = U ''Nie''"
      using yes_no_cases [of e "normalize_whitespace q"] by auto
    then show "a' \<noteq> U ''nie wiem''" using ne by auto
  qed
qed

lemma example_ensure:
  "ensure example_load device new_router = Inr loaded_router"
  "mlm loaded_router = Some example_engine"
  by (simp_all add: ensure_def example_load_def new_router_def loaded_router_def)

lemma ex_czy_clean:
  "normalize_whitespace (U ''Czy  Polska jest w Europie?'') = U ''Czy Polska jest w Europie?''"
  by (simp add: text_evals)

lemma ex_czy_prefix: "prefix (U ''czy '') (lower (U ''Czy Polska jest w Europie?''))"
  by (simp add: text_evals)

lemma ex_czy_strip: "strip (U ''Czy Polska jest w Europie?'') = U ''Czy Polska jest w Europie?''"
  by (simp add: text_evals)

theorem yes_no_question_resolves_by_pll_witness:
  "fst (fst (answer_one example_runtime example_load new_router
               (U ''Czy  Polska jest w Europie?''))) = [Arithmetic, YesNo]
   \<and> snd (fst (answer_one example_runtime example_load new_router
                  (U ''Czy  Polska jest w Europie?''))) = Inr (U ''Nie'')"
proof -
  let ?q = "U ''Czy  Polska jest w Europie?''"
  have p: "prefix (U ''czy '') (lower (normalize_whitespace ?q))"
    unfolding ex_czy_clean by (rule ex_czy_prefix)
  have y: "pll example_engine (strip (normalize_whitespace ?q) @ U '' Tak.'') = Inr (- ln 3)"
    unfolding ex_czy_clean ex_czy_strip by (rule example_pll) (simp_all add: U_def)
  have n: "pll example_engine (strip (normalize_whitespace ?q) @ U '' Nie.'') = Inr (- ln 3)"
    unfolding ex_czy_clean ex_czy_strip by (rule example_pll) (simp_all add: U_def)
  show ?thesis
    using yes_no_question_resolves_by_pll [OF p example_ensure, of example_runtime] y n
    by simp
qed

section \<open>Properties of the router: the order of the stages\<close>

lemma templates_follow_lexicon:
  "find (\<lambda>(pat, ans). pmatch pat qs) lexicon = None
   \<Longrightarrow> find (\<lambda>(pat, sent, multi). pmatch pat qs) templates = None"
  by (simp add: lexicon_def templates_def split: if_splits)

lemma lexicon_answers_nonempty:
  "find (\<lambda>(pat, ans). pmatch pat qs) lexicon = Some (pat, ans) \<Longrightarrow> ans \<noteq> []"
  by (auto simp: lexicon_def U_def split: if_splits)

lemma answer_general_stages:
  "(fst (answer_general e q) = [Lexicon]
      \<and> (\<exists>ans. snd (answer_general e q) = Inr (Some ans) \<and> ans \<noteq> []))
   \<or> fst (answer_general e q) = [Lexicon, Templates, Generic]"
proof (cases "find (\<lambda>(pat, ans). pmatch pat (normalize_whitespace q)) lexicon")
  case None
  then show ?thesis
    using templates_follow_lexicon [OF None]
    by (simp add: answer_general_def Let_def)
next
  case (Some pa)
  obtain pat ans where pa: "pa = (pat, ans)" by (cases pa)
  have "ans \<noteq> []" using Some pa lexicon_answers_nonempty by blast
  then show ?thesis
    using Some pa by (simp add: answer_general_def Let_def)
qed

lemma answer_with_engine_stages:
  "prefix (Arithmetic # fst (answer_with_engine e qc)) STAGE_ORDER
   \<and> (Unknown \<in> set (fst (answer_with_engine e qc))
        \<longrightarrow> snd (answer_with_engine e qc) = Inr (U ''nie wiem''))"
proof -
  obtain st res where g: "answer_general e qc = (st, res)" by (cases "answer_general e qc")
  from answer_general_stages [of e qc] g
  have st: "(st = [Lexicon] \<and> (\<exists>ans. res = Inr (Some ans) \<and> ans \<noteq> []))
            \<or> st = [Lexicon, Templates, Generic]" by simp
  show ?thesis
    using st g
    by (auto simp: answer_with_engine_def STAGE_ORDER_def
        split: sum.splits option.splits)
qed

lemma answer_general_by_stage:
  "(\<forall>pat ans. find (\<lambda>(pat, ans). pmatch pat (normalize_whitespace qc)) lexicon = Some (pat, ans)
       \<longrightarrow> answer_general e qc = ([Lexicon], Inr (Some ans)))
   \<and> (find (\<lambda>(pat, ans). pmatch pat (normalize_whitespace qc)) lexicon = None
       \<longrightarrow> answer_general e qc
           = ([Lexicon, Templates, Generic], answer_generic e (normalize_whitespace qc)))"
proof (intro conjI allI impI)
  fix pat ans
  assume "find (\<lambda>(pat, ans). pmatch pat (normalize_whitespace qc)) lexicon = Some (pat, ans)"
  then show "answer_general e qc = ([Lexicon], Inr (Some ans))"
    by (simp add: answer_general_def Let_def)
next
  assume n: "find (\<lambda>(pat, ans). pmatch pat (normalize_whitespace qc)) lexicon = None"
  show "answer_general e qc
        = ([Lexicon, Templates, Generic], answer_generic e (normalize_whitespace qc))"
    using n templates_follow_lexicon [OF n] by (simp add: answer_general_def Let_def)
qed

lemma answer_after_capital:
  assumes "\<not> prefix (U ''czy '') (lower qc)"
    and "capital_stage e qc = Inr None \<or> capital_stage e qc = Inr (Some [])"
  shows "answer_with_engine e qc
         = (case answer_general e qc of
              (st, Inl x) \<Rightarrow> ([YesNo, Capital] @ st, Inl x)
            | (st, Inr (Some a)) \<Rightarrow>
                if a \<noteq> [] then ([YesNo, Capital] @ st, Inr a)
                else ([YesNo, Capital] @ st @ [Unknown], Inr (U ''nie wiem''))
            | (st, Inr None) \<Rightarrow> ([YesNo, Capital] @ st @ [Unknown], Inr (U ''nie wiem'')))"
  using assms
  by (auto simp: answer_with_engine_def split: prod.splits sum.splits option.splits)

lemma answer_with_engine_by_stage:
  "(prefix (U ''czy '') (lower qc) \<longrightarrow> answer_with_engine e qc = ([YesNo], yes_no e qc))
   \<and> (\<not> prefix (U ''czy '') (lower qc) \<longrightarrow>
        (\<forall>x. capital_stage e qc = Inl x
            \<longrightarrow> answer_with_engine e qc = ([YesNo, Capital], Inl x))
      \<and> (\<forall>a. capital_stage e qc = Inr (Some a) \<and> a \<noteq> []
            \<longrightarrow> answer_with_engine e qc = ([YesNo, Capital], Inr a))
      \<and> (capital_stage e qc = Inr None \<or> capital_stage e qc = Inr (Some []) \<longrightarrow>
           (\<forall>pat ans. find (\<lambda>(pat, ans). pmatch pat (normalize_whitespace qc)) lexicon
                         = Some (pat, ans)
               \<longrightarrow> answer_with_engine e qc = ([YesNo, Capital, Lexicon], Inr ans))
         \<and> (find (\<lambda>(pat, ans). pmatch pat (normalize_whitespace qc)) lexicon = None \<longrightarrow>
              (\<forall>x. answer_generic e (normalize_whitespace qc) = Inl x
                  \<longrightarrow> answer_with_engine e qc
                      = ([YesNo, Capital, Lexicon, Templates, Generic], Inl x))
            \<and> (\<forall>a. answer_generic e (normalize_whitespace qc) = Inr (Some a) \<and> a \<noteq> []
                  \<longrightarrow> answer_with_engine e qc
                      = ([YesNo, Capital, Lexicon, Templates, Generic], Inr a))
            \<and> (answer_generic e (normalize_whitespace qc) = Inr None
                  \<or> answer_generic e (normalize_whitespace qc) = Inr (Some [])
                  \<longrightarrow> answer_with_engine e qc
                      = ([YesNo, Capital, Lexicon, Templates, Generic, Unknown],
                         Inr (U ''nie wiem''))))))"
proof (intro conjI impI allI)
  assume "prefix (U ''czy '') (lower qc)"
  then show "answer_with_engine e qc = ([YesNo], yes_no e qc)"
    by (simp add: answer_with_engine_def)
next
  fix x assume "\<not> prefix (U ''czy '') (lower qc)" "capital_stage e qc = Inl x"
  then show "answer_with_engine e qc = ([YesNo, Capital], Inl x)"
    by (simp add: answer_with_engine_def)
next
  fix a assume "\<not> prefix (U ''czy '') (lower qc)" "capital_stage e qc = Inr (Some a) \<and> a \<noteq> []"
  then show "answer_with_engine e qc = ([YesNo, Capital], Inr a)"
    by (simp add: answer_with_engine_def)
next
  fix pat ans
  assume c: "\<not> prefix (U ''czy '') (lower qc)"
    "capital_stage e qc = Inr None \<or> capital_stage e qc = Inr (Some [])"
    and l: "find (\<lambda>(pat, ans). pmatch pat (normalize_whitespace qc)) lexicon = Some (pat, ans)"
  have "answer_general e qc = ([Lexicon], Inr (Some ans))"
    using answer_general_by_stage [of qc e] l by blast
  moreover have "ans \<noteq> []" using lexicon_answers_nonempty [OF l] .
  ultimately show "answer_with_engine e qc = ([YesNo, Capital, Lexicon], Inr ans)"
    unfolding answer_after_capital [OF c] by simp
next
  fix x
  assume c: "\<not> prefix (U ''czy '') (lower qc)"
    "capital_stage e qc = Inr None \<or> capital_stage e qc = Inr (Some [])"
    and l: "find (\<lambda>(pat, ans). pmatch pat (normalize_whitespace qc)) lexicon = None"
    and g: "answer_generic e (normalize_whitespace qc) = Inl x"
  have "answer_general e qc = ([Lexicon, Templates, Generic], Inl x)"
    using answer_general_by_stage [of qc e] l g by simp
  then show "answer_with_engine e qc = ([YesNo, Capital, Lexicon, Templates, Generic], Inl x)"
    unfolding answer_after_capital [OF c] by simp
next
  fix a
  assume c: "\<not> prefix (U ''czy '') (lower qc)"
    "capital_stage e qc = Inr None \<or> capital_stage e qc = Inr (Some [])"
    and l: "find (\<lambda>(pat, ans). pmatch pat (normalize_whitespace qc)) lexicon = None"
    and g: "answer_generic e (normalize_whitespace qc) = Inr (Some a) \<and> a \<noteq> []"
  have "answer_general e qc = ([Lexicon, Templates, Generic], Inr (Some a))"
    using answer_general_by_stage [of qc e] l g by simp
  then show "answer_with_engine e qc = ([YesNo, Capital, Lexicon, Templates, Generic], Inr a)"
    unfolding answer_after_capital [OF c] using g by simp
next
  assume c: "\<not> prefix (U ''czy '') (lower qc)"
    "capital_stage e qc = Inr None \<or> capital_stage e qc = Inr (Some [])"
    and l: "find (\<lambda>(pat, ans). pmatch pat (normalize_whitespace qc)) lexicon = None"
    and g: "answer_generic e (normalize_whitespace qc) = Inr None
            \<or> answer_generic e (normalize_whitespace qc) = Inr (Some [])"
  have "answer_general e qc = ([Lexicon, Templates, Generic], Inr None)
        \<or> answer_general e qc = ([Lexicon, Templates, Generic], Inr (Some []))"
    using answer_general_by_stage [of qc e] l g by auto
  then show "answer_with_engine e qc
      = ([YesNo, Capital, Lexicon, Templates, Generic, Unknown], Inr (U ''nie wiem''))"
    unfolding answer_after_capital [OF c] by auto
qed

lemma answer_one_with_engine:
  assumes "try_arithmetic rt (normalize_whitespace q) = Inr None"
    and "ensure load (U ''auto'') r = Inr r'" and "mlm r' = Some e"
  shows "fst (answer_one rt load r q)
         = (Arithmetic # fst (answer_with_engine e (normalize_whitespace q)),
            snd (answer_with_engine e (normalize_whitespace q)))"
  using assms by (simp add: answer_one_def Let_def split: prod.splits)

text \<open>
  Claim C3 (as amended). For every question the stages that \<open>answer_one\<close> enters
  are a non-empty initial part of the fixed order: arithmetic heuristic, yes/no
  comparison, capital cloze, lexicon lookup, cloze templates, generic cloze, the
  sentinel \<open>nie wiem\<close>. The sentinel stage, when it is reached, gives the answer
  \<open>nie wiem\<close>; an answer of the arithmetic heuristic is returned at once, no other stage
  being entered. When the arithmetic heuristic has no answer and the engine is loaded,
  the first stage with a non-empty result decides: a question that starts with
  \<open>czy \<close> gets the result of the yes/no comparison; any other question gets the
  non-empty answer of the capital stage; failing that, the answer of the first pattern
  of the lexicon that matches; failing that (then no template matches either), the
  non-empty answer of the generic cloze; failing that, \<open>nie wiem\<close>. An exception
  of the capital stage or of the generic cloze is the result of \<open>answer_one\<close>.
\<close>

theorem router_stage_order:
  "prefix (fst (fst (answer_one rt load r q))) STAGE_ORDER
   \<and> fst (fst (answer_one rt load r q)) \<noteq> []
   \<and> (Unknown \<in> set (fst (fst (answer_one rt load r q)))
        \<longrightarrow> snd (fst (answer_one rt load r q)) = Inr (U ''nie wiem''))
   \<and> (\<forall>a. try_arithmetic rt (normalize_whitespace q) = Inr (Some a)
        \<longrightarrow> fst (answer_one rt load r q) = ([Arithmetic], Inr a))
   \<and> (\<forall>r' e. try_arithmetic rt (normalize_whitespace q) = Inr None
          \<and> ensure load (U ''auto'') r = Inr r' \<and> mlm r' = Some e \<longrightarrow>
        (prefix (U ''czy '') (lower (normalize_whitespace q))
           \<longrightarrow> fst (answer_one rt load r q)
               = ([Arithmetic, YesNo], yes_no e (normalize_whitespace q)))
      \<and> (\<not> prefix (U ''czy '') (lower (normalize_whitespace q)) \<longrightarrow>
           (\<forall>x. capital_stage e (normalize_whitespace q) = Inl x
               \<longrightarrow> fst (answer_one rt load r q) = ([Arithmetic, YesNo, Capital], Inl x))
         \<and> (\<forall>a. capital_stage e (normalize_whitespace q) = Inr (Some a) \<and> a \<noteq> []
               \<longrightarrow> fst (answer_one rt load r q) = ([Arithmetic, YesNo, Capital], Inr a))
         \<and> (capital_stage e (normalize_whitespace q) = Inr None
               \<or> capital_stage e (normalize_whitespace q) = Inr (Some []) \<longrightarrow>
              (\<forall>pat ans.
                  find (\<lambda>(pat, ans). pmatch pat (normalize_whitespace (normalize_whitespace q)))
                       lexicon = Some (pat, ans)
                  \<longrightarrow> fst (answer_one rt load r q)
                      = ([Arithmetic, YesNo, Capital, Lexicon], Inr ans))
            \<and> (find (\<lambda>(pat, ans). pmatch pat (normalize_whitespace (normalize_whitespace q)))
                     lexicon = None \<longrightarrow>
                 (\<forall>x. answer_generic e (normalize_whitespace (normalize_whitespace q)) = Inl x
                     \<longrightarrow> fst (answer_one rt load r q)
                         = ([Arithmetic, YesNo, Capital, Lexicon, Templates, Generic], Inl x))
               \<and> (\<forall>a. answer_generic e (normalize_whitespace (normalize_whitespace q))
                         = Inr (Some a) \<and> a \<noteq> []
                     \<longrightarrow> fst (answer_one rt load r q)
                         = ([Arithmetic, YesNo, Capital, Lexicon, Templates, Generic], Inr a))
               \<and> (answer_generic e (normalize_whitespace (normalize_whitespace q)) = Inr None
                     \<or> answer_generic e (normalize_whitespace (normalize_whitespace q))
                        = Inr (Some [])
                     \<longrightarrow> fst (answer_one rt load r q)
                         = (STAGE_ORDER, Inr (U ''nie wiem'')))))))"
proof -
  have one: "prefix [Arithmetic] STAGE_ORDER" by (simp add: STAGE_ORDER_def)
  let ?qc = "normalize_whitespace q"
  have trace: "prefix (fst (fst (answer_one rt load r q))) STAGE_ORDER
     \<and> fst (fst (answer_one rt load r q)) \<noteq> []
     \<and> (Unknown \<in> set (fst (fst (answer_one rt load r q)))
          \<longrightarrow> snd (fst (answer_one rt load r q)) = Inr (U ''nie wiem''))
     \<and> (\<forall>a. try_arithmetic rt ?qc = Inr (Some a)
          \<longrightarrow> fst (answer_one rt load r q) = ([Arithmetic], Inr a))"
  proof -
    consider (raise) x where "try_arithmetic rt ?qc = Inl x"
      | (hit) a where "try_arithmetic rt ?qc = Inr (Some a)"
      | (noload) x where "try_arithmetic rt ?qc = Inr None" "ensure load (U ''auto'') r = Inl x"
      | (noengine) r' where "try_arithmetic rt ?qc = Inr None"
          "ensure load (U ''auto'') r = Inr r'" "mlm r' = None"
      | (engine) r' e where "try_arithmetic rt ?qc = Inr None"
          "ensure load (U ''auto'') r = Inr r'" "mlm r' = Some e"
      by (metis sum.exhaust option.exhaust)
    then show ?thesis
    proof cases
      case raise
      then show ?thesis using one by (simp add: answer_one_def Let_def)
    next
      case hit
      then show ?thesis using one by (simp add: answer_one_def Let_def)
    next
      case noload
      then show ?thesis using one by (simp add: answer_one_def Let_def)
    next
      case noengine
      then show ?thesis using one by (simp add: answer_one_def Let_def)
    next
      case engine
      obtain st res where w: "answer_with_engine e ?qc = (st, res)"
        by (cases "answer_with_engine e ?qc")
      have "fst (answer_one rt load r q) = (Arithmetic # st, res)"
        using engine w by (simp add: answer_one_def Let_def)
      moreover have "prefix (Arithmetic # st) STAGE_ORDER"
        "Unknown \<in> set st \<longrightarrow> res = Inr (U ''nie wiem'')"
        using answer_with_engine_stages [of e ?qc] w by simp_all
      ultimately show ?thesis using engine(1) by simp
    qed
  qed
  have stages: "(prefix (U ''czy '') (lower ?qc)
           \<longrightarrow> fst (answer_one rt load r q) = ([Arithmetic, YesNo], yes_no e ?qc))
      \<and> (\<not> prefix (U ''czy '') (lower ?qc) \<longrightarrow>
           (\<forall>x. capital_stage e ?qc = Inl x
               \<longrightarrow> fst (answer_one rt load r q) = ([Arithmetic, YesNo, Capital], Inl x))
         \<and> (\<forall>a. capital_stage e ?qc = Inr (Some a) \<and> a \<noteq> []
               \<longrightarrow> fst (answer_one rt load r q) = ([Arithmetic, YesNo, Capital], Inr a))
         \<and> (capital_stage e ?qc = Inr None \<or> capital_stage e ?qc = Inr (Some []) \<longrightarrow>
              (\<forall>pat ans.
                  find (\<lambda>(pat, ans). pmatch pat (normalize_whitespace ?qc)) lexicon
                    = Some (pat, ans)
                  \<longrightarrow> fst (answer_one rt load r q)
                      = ([Arithmetic, YesNo, Capital, Lexicon], Inr ans))
            \<and> (find (\<lambda>(pat, ans). pmatch pat (normalize_whitespace ?qc)) lexicon = None \<longrightarrow>
                 (\<forall>x. answer_generic e (normalize_whitespace ?qc) = Inl x
                     \<longrightarrow> fst (answer_one rt load r q)
                         = ([Arithmetic, YesNo, Capital, Lexicon, Templates, Generic], Inl x))
               \<and> (\<forall>a. answer_generic e (normalize_whitespace ?qc) = Inr (Some a) \<and> a \<noteq> []
                     \<longrightarrow> fst (answer_one rt load r q)
                         = ([Arithmetic, YesNo, Capital, Lexicon, Templates, Generic], Inr a))
               \<and> (answer_generic e (normalize_whitespace ?qc) = Inr None
                     \<or> answer_generic e (normalize_whitespace ?qc) = Inr (Some [])
                     \<longrightarrow> fst (answer_one rt load r q) = (STAGE_ORDER, Inr (U ''nie wiem''))))))"
    if h: "try_arithmetic rt ?qc = Inr None \<and> ensure load (U ''auto'') r = Inr r'
           \<and> mlm r' = Some e" for r' e
  proof -
    have a: "fst (answer_one rt load r q)
         = (Arithmetic # fst (answer_with_engine e ?qc), snd (answer_with_engine e ?qc))"
      using h answer_one_with_engine [of rt q load r r' e] by blast
    have lift: "fst (answer_one rt load r q) = (Arithmetic # st, res)"
      if "answer_with_engine e ?qc = (st, res)" for st res
      using a that by simp
    show ?thesis
      unfolding STAGE_ORDER_def
      using answer_with_engine_by_stage [of ?qc e] lift by blast
  qed
  show ?thesis using trace stages by blast
qed

lemma ex_lex_clean: "normalize_whitespace lada_question = lada_question"
  by (simp add: lada_question_def text_evals)

lemma ex_lex_not_arith: "try_arithmetic rt lada_question = Inr None"
  by (simp add: lada_question_def text_evals arith_evals)

lemma ex_lex_not_czy: "\<not> prefix (U ''czy '') (lower lada_question)"
  by (simp add: lada_question_def text_evals)

lemma ex_lex_not_capital: "capital_stage e lada_question = Inr None"
  by (simp add: lada_question_def capital_stage_def CAPITAL_PATTERNS_def capital_match_def
      ci_prefix_def ci_eq_def text_evals)

lemma ex_lex_general: "answer_general e lada_question = ([Lexicon], Inr (Some (U ''Niva'')))"
  unfolding answer_general_def ex_lex_clean Let_def
  by (simp add: lada_question_def lexicon_def LEX1_def ci_prefix_def ci_eq_def text_evals)

lemma ex_lex_find:
  "find (\<lambda>(pat, ans). pmatch pat lada_question) lexicon = Some (LEX1, U ''Niva'')"
  by (simp add: lada_question_def lexicon_def LEX1_def ci_prefix_def ci_eq_def text_evals)

lemma ex_lex_engine:
  "answer_with_engine e lada_question = ([YesNo, Capital, Lexicon], Inr (U ''Niva''))"
proof -
  have ne: "U ''Niva'' \<noteq> []" by (simp add: U_def)
  show ?thesis
    unfolding answer_with_engine_def
    by (simp only: ex_lex_not_czy ex_lex_not_capital ex_lex_general if_False sum.case
        option.case prod.case ne if_True not_False_eq_True append.simps)
qed

lemma ex_lex_answer:
  "fst (answer_one example_runtime example_load new_router lada_question)
   = ([Arithmetic, YesNo, Capital, Lexicon], Inr (U ''Niva''))"
  unfolding answer_one_def ex_lex_clean Let_def
  by (simp only: ex_lex_not_arith example_ensure ex_lex_engine sum.case option.case
      prod.case fst_conv)

lemma ex_lex_no_engine:
  "fst (answer_one example_runtime failing_load new_router lada_question)
   = ([Arithmetic], Inl (RuntimeError (U ''model not found'')))"
proof -
  have en: "ensure failing_load (U ''auto'') new_router = Inl (RuntimeError (U ''model not found''))"
    by (simp add: ensure_def failing_load_def new_router_def)
  show ?thesis
    unfolding answer_one_def ex_lex_clean Let_def
    by (simp only: ex_lex_not_arith en sum.case option.case prod.case fst_conv)
qed

lemma ex_sum_clean: "normalize_whitespace (U ''Ile to 2+2?'') = U ''Ile to 2+2?''"
  by (simp add: text_evals)

lemma ex_sum_arith: "try_arithmetic example_runtime (U ''Ile to 2+2?'') = Inr (Some (U ''4''))"
  by (simp add: text_evals arith_evals example_runtime_def)

lemma ex_sum_answer:
  "fst (answer_one example_runtime load r (U ''Ile to 2+2?'')) = ([Arithmetic], Inr (U ''4''))"
  unfolding answer_one_def ex_sum_clean Let_def
  by (simp only: ex_sum_arith sum.case option.case fst_conv)

lemma ex_kto_clean: "normalize_whitespace (U ''Kto to?'') = U ''Kto to?''"
  by (simp add: text_evals)

lemma ex_kto_not_arith: "try_arithmetic rt (U ''Kto to?'') = Inr None"
  by (simp add: text_evals arith_evals)

lemma ex_kto_not_czy: "\<not> prefix (U ''czy '') (lower (U ''Kto to?''))"
  by (simp add: text_evals)

lemma ex_kto_not_capital: "capital_stage e (U ''Kto to?'') = Inr None"
  by (simp add: capital_stage_def CAPITAL_PATTERNS_def capital_match_def
      ci_prefix_def ci_eq_def text_evals)

lemma ex_kto_not_lexicon:
  "find (\<lambda>(pat, ans). pmatch pat (U ''Kto to?'')) lexicon = None"
  by (simp add: lexicon_def LEX1_def LEX2_def LEX3_def LEX4_def LEX5_def LEX6_def LEX7_def
      LEX8_def LEX9_def ci_prefix_def U_def)

lemma silent_fill_one: "fill_one silent_engine template k = Inr []"
  by (simp add: fill_one_def silent_engine_def Let_def)

lemma ex_kto_general:
  "answer_general silent_engine (U ''Kto to?'') = ([Lexicon, Templates, Generic], Inr None)"
  unfolding answer_general_def ex_kto_clean Let_def
  by (simp add: ex_kto_not_lexicon templates_follow_lexicon [OF ex_kto_not_lexicon]
      answer_generic_def silent_fill_one)

lemma ex_kto_engine:
  "answer_with_engine silent_engine (U ''Kto to?'')
   = ([YesNo, Capital, Lexicon, Templates, Generic, Unknown], Inr (U ''nie wiem''))"
  unfolding answer_with_engine_def
  by (simp only: ex_kto_not_czy ex_kto_not_capital ex_kto_general if_False sum.case
      option.case prod.case append.simps)

lemma silent_ensure:
  "ensure load device silent_router = Inr silent_router"
  "mlm silent_router = Some silent_engine"
  by (simp_all add: ensure_def silent_router_def)

lemma ex_kto_trace:
  "fst (fst (answer_one example_runtime example_load silent_router (U ''Kto to?'')))
   = STAGE_ORDER"
  unfolding answer_one_def ex_kto_clean Let_def
  by (simp only: ex_kto_not_arith silent_ensure ex_kto_engine sum.case option.case
      prod.case fst_conv STAGE_ORDER_def)

theorem router_stage_order_witness:
  "fst (answer_one example_runtime example_load new_router (U ''Ile to 2+2?''))
   = ([Arithmetic], Inr (U ''4''))
   \<and> fst (answer_one example_runtime example_load new_router lada_question)
     = ([Arithmetic, YesNo, Capital, Lexicon], Inr (U ''Niva''))
   \<and> fst (answer_one example_runtime example_load silent_router (U ''Kto to?''))
     = (STAGE_ORDER, Inr (U ''nie wiem''))"
proof -
  have a: "try_arithmetic example_runtime (normalize_whitespace (U ''Ile to 2+2?''))
           = Inr (Some (U ''4''))"
    unfolding ex_sum_clean by (rule ex_sum_arith)
  have first: "fst (answer_one example_runtime example_load new_router (U ''Ile to 2+2?''))
        = ([Arithmetic], Inr (U ''4''))"
    using router_stage_order [of example_runtime example_load new_router "U ''Ile to 2+2?''"] a
    by blast
  have l1: "try_arithmetic example_runtime (normalize_whitespace lada_question) = Inr None
      \<and> ensure example_load (U ''auto'') new_router = Inr loaded_router
      \<and> mlm loaded_router = Some example_engine"
    unfolding ex_lex_clean using ex_lex_not_arith example_ensure by simp
  have l2: "\<not> prefix (U ''czy '') (lower (normalize_whitespace lada_question))"
    unfolding ex_lex_clean by (rule ex_lex_not_czy)
  have l3: "capital_stage example_engine (normalize_whitespace lada_question) = Inr None"
    unfolding ex_lex_clean by (rule ex_lex_not_capital)
  have l4: "find (\<lambda>(pat, ans). pmatch pat (normalize_whitespace (normalize_whitespace lada_question)))
               lexicon = Some (LEX1, U ''Niva'')"
    unfolding ex_lex_clean by (rule ex_lex_find)
  note stages = router_stage_order [of example_runtime example_load new_router lada_question,
      THEN conjunct2, THEN conjunct2, THEN conjunct2, THEN conjunct2, rule_format,
      of loaded_router example_engine, OF l1]
  have second: "fst (answer_one example_runtime example_load new_router lada_question)
        = ([Arithmetic, YesNo, Capital, Lexicon], Inr (U ''Niva''))"
    using stages l2 l3 l4 by blast
  have u: "Unknown \<in> set (fst (fst (answer_one example_runtime example_load silent_router
                                       (U ''Kto to?''))))"
    unfolding ex_kto_trace by (simp add: STAGE_ORDER_def)
  have "snd (fst (answer_one example_runtime example_load silent_router (U ''Kto to?'')))
        = Inr (U ''nie wiem'')"
    using router_stage_order [of example_runtime example_load silent_router "U ''Kto to?''"] u
    by blast
  then have third: "fst (answer_one example_runtime example_load silent_router (U ''Kto to?''))
     = (STAGE_ORDER, Inr (U ''nie wiem''))"
    using ex_kto_trace by (simp add: prod_eq_iff)
  show ?thesis using first second third by blast
qed

text \<open>
  The claim as stated puts the lexicon lookup second, before the yes/no comparison and
  before any use of the model. In the source the lookup is the first step of
  \<open>answer_general\<close>, a method of the engine that is called after the yes/no test
  and the capital patterns: a question of the lexicon passes both before it is looked
  up, a yes/no question is answered without the lexicon being consulted, and when the
  engine cannot be loaded a question of the lexicon gets no answer from the lexicon.
\<close>

theorem lexicon_not_before_yes_no_counterexample:
  "fst (fst (answer_one example_runtime example_load new_router lada_question))
   = [Arithmetic, YesNo, Capital, Lexicon]
   \<and> fst (fst (answer_one example_runtime example_load new_router
                  (U ''Czy  Polska jest w Europie?''))) = [Arithmetic, YesNo]
   \<and> snd (fst (answer_one example_runtime failing_load new_router lada_question))
     = Inl (RuntimeError (U ''model not found''))"
proof -
  have p: "prefix (U ''czy '') (lower (normalize_whitespace (U ''Czy  Polska jest w Europie?'')))"
    unfolding ex_czy_clean by (rule ex_czy_prefix)
  show ?thesis
    using ex_lex_answer ex_lex_no_engine
      answer_one_czy [OF p example_ensure, of example_runtime]
    by simp
qed

section \<open>Properties of the batch\<close>

lemma sort_questions_mset:
  assumes "mset qs = mset qs'"
  shows "sort_questions qs = sort_questions qs'"
proof -
  let ?f = "\<lambda>qs. map strip (filter (\<lambda>q. strip q \<noteq> []) qs)"
  have "mset (?f qs) = mset (?f qs')"
    using assms by (metis mset_filter mset_map)
  then have "mset (sort (?f qs')) = mset (?f qs)" by simp
  then have "sort (?f qs) = sort (?f qs')"
    by (rule properties_for_sort) simp
  then show ?thesis by (simp add: sort_questions_def)
qed

lemma answer_one_keeps_loaded_router:
  assumes "mlm r = Some e"
  shows "snd (answer_one rt load r q) = r"
  using assms
  by (simp add: answer_one_def ensure_def Let_def split: sum.splits option.splits prod.splits)

lemma answer_loop_loaded:
  assumes "mlm r = Some e"
  shows "answer_loop rt load r qs out
         = (out @ map (\<lambda>q. (q, case snd (fst (answer_one rt load r q)) of
                                   Inl e \<Rightarrow> error_answer e | Inr a \<Rightarrow> a)) qs, r)"
proof (induction qs arbitrary: out)
  case Nil
  then show ?case by simp
next
  case (Cons q qs)
  obtain st res r' where a: "answer_one rt load r q = ((st, res), r')"
    by (metis prod.collapse)
  have "r' = r" using answer_one_keeps_loaded_router [OF assms, of rt load q] a by simp
  then show ?case using a Cons.IH by (simp add: Let_def)
qed

lemma ensure_loaded:
  assumes "ensure load device r = Inr r'"
  shows "\<exists>e. mlm r' = Some e"
  using assms by (auto simp: ensure_def split: option.splits sum.splits)

text \<open>
  Claim C4, the part that holds: once the engine is loaded, \<open>answer_many\<close>
  returns (it does not raise) one pair for each question that is not blank, in the order
  of \<open>sort_questions\<close>: the question with the answer of \<open>answer_one\<close>, or, when
  \<open>answer_one\<close> raises, with the diagnostic text that holds the message of the
  exception. The pair of a question depends on that question alone, so a failure of one
  question changes no other pair.
\<close>

theorem answer_many_one_pair_per_question:
  assumes "ensure load device r = Inr r'"
  shows "fst (answer_many rt load r questions device)
         = Inr (map (\<lambda>q. (q, case snd (fst (answer_one rt load r' q)) of
                                 Inl e \<Rightarrow> error_answer e | Inr a \<Rightarrow> a))
                    (sort_questions questions))
       \<and> length (sort_questions questions) = length (filter (\<lambda>q. strip q \<noteq> []) questions)"
proof -
  obtain e where e: "mlm r' = Some e" using ensure_loaded [OF assms] by blast
  show ?thesis
    using assms answer_loop_loaded [OF e, of rt load "sort_questions questions" "[]"]
    by (simp add: answer_many_def sort_questions_def)
qed

lemma ex_tak_clean: "normalize_whitespace (U ''Czy tak!'') = U ''Czy tak!''"
  by (simp add: text_evals)

lemma ex_tak_prefix: "prefix (U ''czy '') (lower (U ''Czy tak!''))"
  by (simp add: text_evals)

lemma ex_tak_yes_no:
  "yes_no example_engine (U ''Czy tak!'') = Inl (RuntimeError (U ''tokenizer failed''))"
  by (simp add: yes_no_def pll_def example_engine_def text_evals)

lemma ex_tak_answer:
  "snd (fst (answer_one example_runtime example_load loaded_router (U ''Czy tak!'')))
   = Inl (RuntimeError (U ''tokenizer failed''))"
proof -
  have p: "prefix (U ''czy '') (lower (normalize_whitespace (U ''Czy tak!'')))"
    unfolding ex_tak_clean by (rule ex_tak_prefix)
  have en: "ensure example_load (U ''auto'') loaded_router = Inr loaded_router"
    by (simp add: ensure_def loaded_router_def)
  show ?thesis
    using answer_one_czy [OF p en example_ensure(2), of example_runtime]
    by (simp add: ex_tak_clean ex_tak_yes_no)
qed

lemma ex_error_answer:
  "error_answer (RuntimeError (U ''tokenizer failed''))
   = U ''[b'' @ [322, 261] @ U ''d: tokenizer failed]''"
  by (simp add: error_answer_def U_def)

lemma ex_sort3:
  "sort_questions [U ''Ile to 2+2?'', U ''  '', U ''Czy tak!''] = [U ''Czy tak!'', U ''Ile to 2+2?'']"
  by (simp add: sort_questions_def text_evals)

lemma ex_sort2:
  "sort_questions [U ''Ile to 2+2?'', U ''Czy tak!''] = [U ''Czy tak!'', U ''Ile to 2+2?'']"
  by (simp add: sort_questions_def text_evals)

theorem answer_many_one_pair_per_question_witness:
  "fst (answer_many example_runtime example_load new_router
          [U ''Ile to 2+2?'', U ''  '', U ''Czy tak!''] (U ''cpu''))
   = Inr [(U ''Czy tak!'', U ''[b'' @ [322, 261] @ U ''d: tokenizer failed]''),
          (U ''Ile to 2+2?'', U ''4'')]"
  using answer_many_one_pair_per_question
      [where rt = example_runtime and device = "U ''cpu''"
         and questions = "[U ''Ile to 2+2?'', U ''  '', U ''Czy tak!'']",
       OF example_ensure(1)]
  unfolding ex_sort3
  by (simp add: ex_tak_answer ex_sum_answer ex_error_answer)

text \<open>
  The loading of the engine at the start of \<open>answer_many\<close> is outside the
  handler of the loop: when it raises, \<open>answer_many\<close> raises.
\<close>

lemma answer_many_raises_when_loading_fails:
  "ensure load device r = Inl x \<Longrightarrow> fst (answer_many rt load r questions device) = Inl x"
  by (simp add: answer_many_def)

text \<open>
  So a failure can abort the batch. With a loader that raises, \<open>answer_many\<close> on
  the one question \<open>Ile to 2+2?\<close> raises and returns no pair, although
  \<open>answer_one\<close> answers that question without the engine.
\<close>

theorem load_failure_aborts_batch_counterexample:
  "fst (answer_many example_runtime failing_load new_router [U ''Ile to 2+2?''] (U ''auto''))
   = Inl (RuntimeError (U ''model not found''))
   \<and> fst (answer_one example_runtime failing_load new_router (U ''Ile to 2+2?''))
     = ([Arithmetic], Inr (U ''4''))"
proof -
  have "ensure failing_load (U ''auto'') new_router = Inl (RuntimeError (U ''model not found''))"
    by (simp add: ensure_def failing_load_def new_router_def)
  then show ?thesis
    using answer_many_raises_when_loading_fails ex_sum_answer by blast
qed

text \<open>
  Claim C9. Two lists of questions with the same multiset of questions give the same
  result of \<open>answer_many\<close>, and the questions of the returned pairs are the stripped
  non-blank questions in sorted order.
\<close>

theorem answer_many_permutation_invariant:
  "(mset questions = mset questions' \<longrightarrow>
      fst (answer_many rt load r questions device)
      = fst (answer_many rt load r questions' device))
   \<and> (\<forall>out. fst (answer_many rt load r questions device) = Inr out \<longrightarrow>
         map fst out = sort (map strip (filter (\<lambda>q. strip q \<noteq> []) questions)))"
proof (intro conjI impI allI)
  assume "mset questions = mset questions'"
  then have "sort_questions questions = sort_questions questions'"
    by (rule sort_questions_mset)
  then show "fst (answer_many rt load r questions device)
      = fst (answer_many rt load r questions' device)"
    unfolding answer_many_def by (simp only:)
next
  fix out
  assume out: "fst (answer_many rt load r questions device) = Inr out"
  then obtain r' where r': "ensure load device r = Inr r'"
    by (auto simp: answer_many_def split: sum.splits)
  obtain e where e: "mlm r' = Some e" using ensure_loaded [OF r'] by blast
  have "out = map (\<lambda>q. (q, case snd (fst (answer_one rt load r' q)) of
                                 Inl e \<Rightarrow> error_answer e | Inr a \<Rightarrow> a))
                    (sort_questions questions)"
    using out r' answer_loop_loaded [OF e, of rt load "sort_questions questions" "[]"]
    by (simp add: answer_many_def)
  then show "map fst out = sort (map strip (filter (\<lambda>q. strip q \<noteq> []) questions))"
    by (simp add: sort_questions_def comp_def)
qed

lemma ex_batch2:
  "fst (answer_many example_runtime example_load new_router
          [U ''Ile to 2+2?'', U ''Czy tak!''] (U ''cpu''))
   = Inr [(U ''Czy tak!'', U ''[b'' @ [322, 261] @ U ''d: tokenizer failed]''),
          (U ''Ile to 2+2?'', U ''4'')]"
  using answer_loop_loaded [OF example_ensure(2), of example_runtime example_load
        "[U ''Czy tak!'', U ''Ile to 2+2?'']" "[]"]
  by (simp add: answer_many_def example_ensure ex_sort2 ex_tak_answer ex_sum_answer
      ex_error_answer)

theorem answer_many_permutation_invariant_witness:
  "fst (answer_many example_runtime example_load new_router
          [U ''Czy tak!'', U ''Ile to 2+2?''] (U ''cpu''))
   = Inr [(U ''Czy tak!'', U ''[b'' @ [322, 261] @ U ''d: tokenizer failed]''),
          (U ''Ile to 2+2?'', U ''4'')]
   \<and> sort (map strip (filter (\<lambda>q. strip q \<noteq> []) [U ''Ile to 2+2?'', U ''Czy tak!'']))
     = [U ''Czy tak!'', U ''Ile to 2+2?'']"
proof -
  have m: "mset [U ''Ile to 2+2?'', U ''Czy tak!''] = mset [U ''Czy tak!'', U ''Ile to 2+2?'']"
    by (simp add: add_mset_commute)
  show ?thesis
    using answer_many_permutation_invariant
      [where questions = "[U ''Ile to 2+2?'', U ''Czy tak!'']"
         and questions' = "[U ''Czy tak!'', U ''Ile to 2+2?'']"
         and rt = example_runtime and load = example_load and r = new_router
         and device = "U ''cpu''"] m ex_batch2
    by auto
qed

section \<open>Properties of the letter constraint\<close>

lemma length_modify_logits:
  "length (modify_logits_for_letter_constraint logits decode letter) = length logits"
  by (simp add: modify_logits_for_letter_constraint_def)

lemma nth_modify_logits:
  "i < length logits \<Longrightarrow>
     modify_logits_for_letter_constraint logits decode letter ! i
     = (if starts_word_with_other_letter decode letter i then logits ! i - 20 else logits ! i)"
  by (simp add: modify_logits_for_letter_constraint_def forbidden_penalty_def)

lemma hd_sort_key_strict_min:
  fixes f :: "'a \<Rightarrow> 'b::linorder"
  assumes "v \<in> set xs" "\<forall>t\<in>set xs. t \<noteq> v \<longrightarrow> f v < f t"
  shows "hd (sort_key f xs) = v"
proof -
  let ?ys = "sort_key f xs"
  have ne: "?ys \<noteq> []" using assms(1) by (metis empty_iff empty_set set_sort)
  then obtain h rest where ys: "?ys = h # rest" by (cases ?ys) auto
  have srt: "sorted (map f ?ys)" by (rule sorted_sort_key)
  have "v \<in> set ?ys" using assms(1) by simp
  then have le: "f h \<le> f v" using srt unfolding ys by auto
  have "h \<in> set xs" using ys by (metis list.set_intros(1) set_sort)
  then have "h = v" using assms(2) le by (metis not_less)
  then show ?thesis using ys by simp
qed

lemma length_argsort_desc: "length (argsort_desc xs) = length xs"
  by (simp add: argsort_desc_def)

lemma set_argsort_desc: "set (argsort_desc xs) = {0..<length xs}"
  by (simp add: argsort_desc_def)

lemma distinct_argsort_desc: "distinct (argsort_desc xs)"
  by (simp add: argsort_desc_def)

lemma hd_argsort_desc:
  assumes "v < length xs"
    and "\<forall>t<length xs. t \<noteq> v \<longrightarrow> desc_key (xs ! v) < desc_key (xs ! t)"
  shows "hd (argsort_desc xs) = v"
  unfolding argsort_desc_def
  by (rule hd_sort_key_strict_min) (use assms in auto)

lemma length_top_p_cut: "length (top_p_cut sl) = length sl"
proof (cases "cutoff_positions (cumsum (softmax sl)) = []")
  case True
  then show ?thesis by (simp add: top_p_cut_def top_p_truncate_def)
next
  case False
  from first_cutoff(1) [OF False]
  have "hd (cutoff_positions (cumsum (softmax sl))) < length sl"
    by (simp add: length_cumsum softmax_def)
  then show ?thesis using False by (simp add: top_p_cut_def top_p_truncate_def Let_def)
qed

lemma top_p_cut_keeps_first: "sl \<noteq> [] \<Longrightarrow> top_p_cut sl ! 0 = sl ! 0"
  by (cases sl) (simp_all add: top_p_cut_def top_p_truncate_def Let_def)

lemma length_foldl_update:
  "length (foldl (\<lambda>final (i, v). final[i := v]) init ps) = length init"
  by (induction ps arbitrary: init) (simp_all add: case_prod_beta)

lemma foldl_update_other:
  "i \<notin> fst ` set ps \<Longrightarrow> foldl (\<lambda>final (i, v). final[i := v]) init ps ! i = init ! i"
  by (induction ps arbitrary: init) (auto simp: case_prod_beta)

lemma foldl_update_nth:
  assumes "distinct (map fst ps)" "(i, x) \<in> set ps" "i < length init"
  shows "foldl (\<lambda>final (i, v). final[i := v]) init ps ! i = x"
  using assms
proof (induction ps arbitrary: init)
  case Nil
  then show ?case by simp
next
  case (Cons p ps)
  show ?case
  proof (cases "p = (i, x)")
    case True
    then have "i \<notin> fst ` set ps" using Cons.prems(1) by auto
    then show ?thesis using True Cons.prems(3) by (simp add: foldl_update_other)
  next
    case False
    then have "(i, x) \<in> set ps" using Cons.prems(2) by auto
    moreover have "distinct (map fst ps)" using Cons.prems(1) by simp
    ultimately show ?thesis using Cons.IH [of "init[fst p := snd p]"] Cons.prems(3)
      by (simp add: case_prod_beta)
  qed
qed

lemma length_scatter: "length (scatter si r) = length r"
  by (simp add: scatter_def length_foldl_update)

lemma scatter_nth:
  assumes "distinct si" "length si = length r" "j < length r" "si ! j < length r"
  shows "scatter si r ! (si ! j) = r ! j"
proof -
  have d: "distinct (map fst (zip si r))" using assms(1,2) by simp
  have m: "(si ! j, r ! j) \<in> set (zip si r)"
    using assms(2,3) by (metis in_set_zip fst_conv snd_conv)
  show ?thesis
    unfolding scatter_def
    by (rule foldl_update_nth [OF d m]) (simp add: assms(4))
qed

lemma softmax_pos:
  assumes "i < length xs" "xs ! i = Some r"
  shows "0 < softmax xs ! i"
proof -
  have "Some r \<in> set xs" using assms by (metis nth_mem)
  then have "0 < sum_list (map expx xs)" by (rule sum_expx_pos)
  then show ?thesis using assms by (simp add: softmax_def expx_def)
qed

lemma desc_key_less:
  "desc_key (Some a) < desc_key (Some b) \<longleftrightarrow> b < a"
  "desc_key (Some a) < desc_key None"
  by (simp_all add: desc_key_def)

lemma strict_maximum_survives:
  assumes k: "TOP_K \<le> length logits"
    and v: "v < length logits"
    and mx: "\<forall>t<length logits. t \<noteq> v \<longrightarrow> logits ! t < logits ! v"
  shows "\<exists>indices final.
           torch_topk logits TOP_K = Inr indices
           \<and> final = scatter (argsort_desc (keep_only logits indices))
                       (top_p_cut (map (\<lambda>i. keep_only logits indices ! i)
                                       (argsort_desc (keep_only logits indices))))
           \<and> length final = length logits
           \<and> final ! v = Some (logits ! v)"
proof -
  let ?n = "length logits"
  let ?indices = "take TOP_K (argsort_desc (map Some logits))"
  let ?lf = "keep_only logits ?indices"
  let ?si = "argsort_desc ?lf"
  let ?sl = "map (\<lambda>i. ?lf ! i) ?si"
  let ?cut = "top_p_cut ?sl"
  have n: "0 < ?n" using v by (cases logits) simp_all
  have topk: "torch_topk logits TOP_K = Inr ?indices"
    using k by (simp add: torch_topk_def)
  have "hd (argsort_desc (map Some logits)) = v"
    by (rule hd_argsort_desc) (use v mx in \<open>auto simp: desc_key_less\<close>)
  moreover have "argsort_desc (map Some logits) \<noteq> []"
    using n by (metis length_argsort_desc length_map length_greater_0_conv)
  moreover have "0 < TOP_K" by (simp add: TOP_K_def)
  ultimately have vin: "v \<in> set ?indices"
    by (metis hd_in_set hd_take take_eq_Nil less_numeral_extra(3))
  have lf_len: "length ?lf = ?n" by (simp add: keep_only_def)
  have lf_v: "?lf ! v = Some (logits ! v)" using v vin by (simp add: keep_only_def)
  have lf_t: "?lf ! t = Some (logits ! t) \<or> ?lf ! t = None" if "t < ?n" for t
    using that by (simp add: keep_only_def)
  have hd_si: "hd ?si = v"
  proof (rule hd_argsort_desc)
    show "v < length ?lf" using v lf_len by simp
    show "\<forall>t<length ?lf. t \<noteq> v \<longrightarrow> desc_key (?lf ! v) < desc_key (?lf ! t)"
    proof (intro allI impI)
      fix t assume t: "t < length ?lf" "t \<noteq> v"
      then have "logits ! t < logits ! v" using mx lf_len by simp
      then show "desc_key (?lf ! v) < desc_key (?lf ! t)"
        using lf_t [of t] t(1) lf_len unfolding lf_v by (auto simp: desc_key_less)
    qed
  qed
  have si_len: "length ?si = ?n" by (simp add: length_argsort_desc lf_len)
  then have si_ne: "?si \<noteq> []" using n by auto
  have si0: "?si ! 0 = v" using hd_si si_ne by (simp add: hd_conv_nth)
  have sl_len: "length ?sl = ?n" using si_len by simp
  then have sl_ne: "?sl \<noteq> []" using n by auto
  have sl0: "?sl ! 0 = Some (logits ! v)"
    using si_len n si0 lf_v by (simp add: nth_map)
  have cut_len: "length ?cut = ?n" using sl_len by (simp only: length_top_p_cut)
  have cut0: "?cut ! 0 = Some (logits ! v)"
    using top_p_cut_keeps_first [OF sl_ne] sl0 by simp
  have "scatter ?si ?cut ! (?si ! 0) = ?cut ! 0"
  proof (rule scatter_nth)
    show "distinct ?si" by (rule distinct_argsort_desc)
    show "length ?si = length ?cut" using si_len cut_len by simp
    show "0 < length ?cut" using cut_len n by simp
    show "?si ! 0 < length ?cut" using si0 v cut_len by simp
  qed
  then have fin: "scatter ?si ?cut ! v = Some (logits ! v)" using si0 cut0 by simp
  have "length (scatter ?si ?cut) = ?n" using cut_len by (simp only: length_scatter)
  then show ?thesis using topk fin by blast
qed

text \<open>
  Claim C1 (as amended). With a vocabulary of at least \<open>TOP_K\<close> tokens a sampling
  step returns a distribution over the vocabulary. The filter lowers the logit of every
  token that starts a new word with another letter by the fixed amount 20 and leaves
  every other logit as it is; it removes no token. A token whose lowered logit is still
  greater than every other logit survives top-k and top-p and has a positive
  probability in the final distribution, whether or not it obeys the constraint.
\<close>

theorem letter_constraint_is_finite_penalty:
  assumes "TOP_K \<le> length model_logits"
  shows "\<exists>probabilities.
           sampling_distribution decode letter model_logits = Inr probabilities
           \<and> length probabilities = length model_logits
           \<and> (\<forall>i<length model_logits.
                 modify_logits_for_letter_constraint model_logits decode letter ! i
                 = (if starts_word_with_other_letter decode letter i
                    then model_logits ! i - 20 else model_logits ! i))
           \<and> (\<forall>v<length model_logits.
                 (\<forall>t<length model_logits. t \<noteq> v \<longrightarrow>
                    modify_logits_for_letter_constraint model_logits decode letter ! t
                    < modify_logits_for_letter_constraint model_logits decode letter ! v)
                 \<longrightarrow> 0 < probabilities ! v)"
proof -
  let ?pen = "modify_logits_for_letter_constraint model_logits decode letter"
  have len: "length ?pen = length model_logits" by (rule length_modify_logits)
  have k: "TOP_K \<le> length ?pen" using assms len by simp
  obtain indices where topk: "torch_topk ?pen TOP_K = Inr indices"
    using k by (simp add: torch_topk_def)
  define final where "final = scatter (argsort_desc (keep_only ?pen indices))
                       (top_p_cut (map (\<lambda>i. keep_only ?pen indices ! i)
                                       (argsort_desc (keep_only ?pen indices))))"
  have sd: "sampling_distribution decode letter model_logits = Inr (softmax final)"
    using topk by (simp add: sampling_distribution_def final_def Let_def)
  have flen: "length final = length model_logits"
    unfolding final_def length_scatter length_top_p_cut
    by (simp add: length_argsort_desc keep_only_def len)
  have pos: "0 < softmax final ! v"
    if v: "v < length model_logits"
      and mx: "\<forall>t<length model_logits. t \<noteq> v \<longrightarrow> ?pen ! t < ?pen ! v" for v
  proof -
    from strict_maximum_survives [OF k, of v] v mx len topk
    have "final ! v = Some (?pen ! v)" unfolding final_def by auto
    then show ?thesis using softmax_pos [of v final] v flen by simp
  qed
  have "length (softmax final) = length model_logits" using flen by (simp add: softmax_def)
  then show ?thesis
    using sd pos nth_modify_logits [of _ model_logits decode letter] by blast
qed

lemma argsort_desc_sorted:
  assumes "\<forall>i j. i < j \<and> j < length xs \<longrightarrow> desc_key (xs ! i) \<le> desc_key (xs ! j)"
  shows "argsort_desc xs = [0..<length xs]"
proof -
  have "sorted (map (\<lambda>i. desc_key (xs ! i)) [0..<length xs])"
    unfolding sorted_iff_nth_mono_less using assms by simp
  then show ?thesis unfolding argsort_desc_def by (rule sort_key_id_if_sorted)
qed

lemma scatter_identity: "scatter [0..<length ys] ys = ys"
proof (rule nth_equalityI)
  show "length (scatter [0..<length ys] ys) = length ys" by (rule length_scatter)
next
  fix j assume "j < length (scatter [0..<length ys] ys)"
  then have j: "j < length ys" by (simp add: length_scatter)
  have "scatter [0..<length ys] ys ! ([0..<length ys] ! j) = ys ! j"
    by (rule scatter_nth) (use j in simp_all)
  then show "scatter [0..<length ys] ys ! j = ys ! j" using j by simp
qed

lemma example_first_letters:
  "starts_word_with_other_letter example_decode (U ''a'') 0"
  "0 < i \<Longrightarrow> \<not> starts_word_with_other_letter example_decode (U ''a'') i"
  by (simp_all add: starts_word_with_other_letter_def example_decode_def U_def lower_def
      strip_def lstrip_def rstrip_def isspace_def simple_lower_def)

lemma example_penalised:
  "modify_logits_for_letter_constraint example_logits example_decode (U ''a'')
   = 10 # replicate 39 0"
proof (rule nth_equalityI)
  show "length (modify_logits_for_letter_constraint example_logits example_decode (U ''a''))
        = length (10 # replicate 39 (0::real))"
    by (simp add: length_modify_logits example_logits_def)
next
  fix i
  assume "i < length (modify_logits_for_letter_constraint example_logits example_decode (U ''a''))"
  then have i: "i < length example_logits" by (simp add: length_modify_logits)
  then have i40: "i < 40" by (simp add: example_logits_def)
  show "modify_logits_for_letter_constraint example_logits example_decode (U ''a'') ! i
        = (10 # replicate 39 0) ! i"
  proof (cases i)
    case 0
    then show ?thesis
      using nth_modify_logits [OF i, of example_decode "U ''a''"] example_first_letters(1)
      by (simp add: example_logits_def)
  next
    case (Suc m)
    then have "\<not> starts_word_with_other_letter example_decode (U ''a'') i"
      by (intro example_first_letters(2)) simp
    then show ?thesis
      using nth_modify_logits [OF i, of example_decode "U ''a''"] Suc i40
      by (simp add: example_logits_def)
  qed
qed

lemma exp_10_large: "(351::real) < exp 10"
proof -
  have "(2::real) \<le> exp 1" using exp_ge_add_one_self [of "1::real"] by simp
  then have "(2::real) ^ 10 \<le> exp 1 ^ 10" by (intro power_mono) simp_all
  also have "exp (1::real) ^ 10 = exp 10" by (simp add: exp_of_nat_mult [symmetric])
  finally show ?thesis by simp
qed

lemma example_top_p_cut:
  "top_p_cut (Some 10 # replicate 39 (Some 0)) = Some 10 # replicate 39 None"
proof -
  let ?sl = "Some 10 # replicate 39 (Some (0::real))"
  let ?cum = "cumsum (softmax ?sl)"
  have s: "sum_list (map expx ?sl) = exp 10 + 39"
    by (simp add: expx_def sum_list_replicate map_replicate_const)
  have len: "length ?cum = 40" by (simp add: length_cumsum softmax_def)
  have "?cum ! 0 = exp 10 / (exp 10 + 39)"
    by (simp add: cumsum_def softmax_def expx_def sum_list_replicate map_replicate_const)
  moreover have "(9/10 :: real) < exp 10 / (exp 10 + 39)"
    using exp_10_large by (simp add: field_simps)
  ultimately have c0: "TOP_P < ?cum ! 0" by (simp add: TOP_P_def)
  have "filter (\<lambda>i. TOP_P < ?cum ! i) [0..<40] \<noteq> []
        \<and> hd (filter (\<lambda>i. TOP_P < ?cum ! i) [0..<40]) = 0"
    by (rule hd_filter_upt_eq) (use c0 in simp_all)
  then have cut: "cutoff_positions ?cum \<noteq> []" "hd (cutoff_positions ?cum) = 0"
    unfolding cutoff_positions_def len by simp_all
  show ?thesis
    unfolding top_p_cut_def top_p_truncate_def Let_def using cut by simp
qed

lemma example_softmax:
  "softmax (Some 10 # replicate 39 None) = 1 # replicate 39 0"
  by (simp add: softmax_def expx_def sum_list_replicate map_replicate_const)

lemma example_distribution:
  "sampling_distribution example_decode (U ''a'') example_logits = Inr (1 # replicate 39 0)"
proof -
  let ?P = "10 # replicate 39 (0::real)"
  let ?S = "Some 10 # replicate 39 (Some (0::real))"
  let ?C = "Some 10 # replicate 39 (None :: real option)"
  have lenS: "length ?S = 40" by simp
  have nthS: "?S ! j = Some 0" if "0 < j" "j < 40" for j
    using that by (cases j) simp_all
  have S0: "?S ! 0 = Some 10" by simp
  have ms: "map Some ?P = ?S" by simp
  have "argsort_desc ?S = [0..<length ?S]"
  proof (rule argsort_desc_sorted, intro allI impI)
    fix i j assume ij: "i < j \<and> j < length ?S"
    then have j: "0 < j" "j < 40" and i: "i < 40" by simp_all
    show "desc_key (?S ! i) \<le> desc_key (?S ! j)"
    proof (cases "i = 0")
      case True
      then show ?thesis unfolding nthS [OF j] True S0 by (simp add: desc_key_def)
    next
      case False
      then have "?S ! i = Some 0" using nthS [of i] i by simp
      then show ?thesis unfolding nthS [OF j] by simp
    qed
  qed
  then have a: "argsort_desc ?S = [0..<40]" unfolding lenS .
  have topk: "torch_topk ?P TOP_K = Inr [0..<40]"
    unfolding torch_topk_def ms a by (simp add: TOP_K_def)
  have "map (\<lambda>i. ?S ! i) [0..<length ?S] = ?S" by (rule map_nth)
  then have sl: "map (\<lambda>i. ?S ! i) [0..<40] = ?S" unfolding lenS .
  have "keep_only ?P [0..<40] = map (\<lambda>i. ?S ! i) [0..<40]"
    unfolding keep_only_def by (rule nth_equalityI) (simp_all del: upt_Suc add: nth_Cons')
  then have ko: "keep_only ?P [0..<40] = ?S" unfolding sl .
  have "scatter [0..<length ?C] ?C = ?C" by (rule scatter_identity)
  moreover have "length ?C = 40" by simp
  ultimately have sc: "scatter [0..<40] ?C = ?C" by (simp only:)
  show ?thesis
    unfolding sampling_distribution_def example_penalised Let_def
    by (simp only: topk sum.case ko a sl example_top_p_cut sc example_softmax)
qed

theorem letter_constraint_is_finite_penalty_witness:
  "\<exists>probabilities.
     sampling_distribution example_decode (U ''a'') example_logits = Inr probabilities
     \<and> length probabilities = 40
     \<and> modify_logits_for_letter_constraint example_logits example_decode (U ''a'') ! 0
       = example_logits ! 0 - 20
     \<and> 0 < probabilities ! 0"
proof -
  let ?pen = "modify_logits_for_letter_constraint example_logits example_decode (U ''a'')"
  have len: "length example_logits = 40" by (simp add: example_logits_def)
  have k: "TOP_K \<le> length example_logits" by (simp add: TOP_K_def len)
  have mx: "\<forall>t<length example_logits. t \<noteq> 0 \<longrightarrow> ?pen ! t < ?pen ! 0"
    unfolding example_penalised len by (simp add: nth_Cons')
  from letter_constraint_is_finite_penalty [OF k, of example_decode "U ''a''"]
  obtain probabilities where
    p: "sampling_distribution example_decode (U ''a'') example_logits = Inr probabilities"
      "length probabilities = length example_logits"
      "\<forall>i<length example_logits. ?pen ! i
          = (if starts_word_with_other_letter example_decode (U ''a'') i
             then example_logits ! i - 20 else example_logits ! i)"
      "\<forall>v<length example_logits.
          (\<forall>t<length example_logits. t \<noteq> v \<longrightarrow> ?pen ! t < ?pen ! v)
          \<longrightarrow> 0 < probabilities ! v"
    by blast
  have "?pen ! 0 = example_logits ! 0 - 20"
    using p(3) example_first_letters(1) len by simp
  moreover have "0 < probabilities ! 0" using p(4) mx len by simp
  ultimately show ?thesis using p(1,2) len by auto
qed

text \<open>
  The claim as stated gives probability zero to every token that starts a new word
  with another letter. With forty tokens, token 0 the word \<open>b\<close> with logit 30 and the
  others the word \<open>a\<close> with logit 0, and the letter \<open>a\<close> required: token 0 violates
  the constraint, its lowered logit 10 is still the largest, top-p keeps it alone, and
  the final distribution gives it probability 1.
\<close>

theorem violating_token_sampled_counterexample:
  "starts_word_with_other_letter example_decode (U ''a'') 0
   \<and> sampling_distribution example_decode (U ''a'') example_logits
     = Inr (1 # replicate 39 0)"
  using example_first_letters(1) example_distribution by simp

end
